theory Spec2Isabelle
  imports Complex_Main
begin

section \<open>Data model\<close>

text \<open>
  The program is \<^verbatim>\<open>slippage_analysis.py\<close>. Its numbers are floating-point numbers
  (Python floats, numpy float64), and \<^verbatim>\<open>compute_slippage\<close> is embedded twice.
  \<^item> \<open>compute_slippage\<close> computes over the real numbers, without rounding. The
    statements about it are about the control flow of the loop (the break, a level
    without volume, an empty book), where no rounding takes part, and about the figure
    of a worked scenario; each is followed by the same statement in float64.
  \<^item> \<open>compute_slippage64\<close> computes as the code does, every operation rounded to
    binary64. The statements about which orders are filled and about the values that
    are returned are about this one.

  One row of the order-book frame that \<^verbatim>\<open>compute_slippage\<close> reads: the columns
  \<^verbatim>\<open>ask_price_1\<close> and \<^verbatim>\<open>ask_volume_1\<close>. A cell is a finite float64, taken as the
  real number it stands for.
\<close>

record row =
  ask_price_1 :: real
  ask_volume_1 :: real

text \<open>
  A row of the frame that \<^verbatim>\<open>analyze_slippage\<close> loads and labels (a file of twenty
  columns); of these the code reads the two above and \<^verbatim>\<open>bid_price_1\<close>.
\<close>

record lob_row = row +
  bid_price_1 :: real

text \<open>
  What a call can raise. \<open>ZeroDivisionError\<close>: the quotient \<^verbatim>\<open>total_cost / x\<close> at
  \<^verbatim>\<open>x = 0\<close>, which has no real value; plain Python numbers raise there, and numpy
  scalars give nan or an infinity with a warning, which is what \<open>compute_slippage64\<close>
  below returns. \<open>IndexError\<close>: \<^verbatim>\<open>iloc[0]\<close> on an empty frame.
  \<open>RuntimeError\<close>: what \<^verbatim>\<open>scipy.optimize.curve_fit\<close> raises when the solver fails.
\<close>

datatype error = ZeroDivisionError | IndexError | RuntimeError

text \<open>The value \<^verbatim>\<open>compute_slippage\<close> returns: a number, or \<^verbatim>\<open>np.nan\<close>.\<close>

datatype slippage = Slippage real | NaN

section \<open>compute\_slippage over the real numbers\<close>

text \<open>
  The body of the loop (lines 18 to 22), on the pair \<open>(total_cost, remaining)\<close>.
  Python's \<^verbatim>\<open>min(remaining, volume)\<close> is \<open>remaining\<close> unless \<open>volume < remaining\<close>.
\<close>

definition fill_level :: "real \<times> real \<Rightarrow> row \<Rightarrow> real \<times> real" where
  "fill_level s r =
     (case s of (total_cost, remaining) \<Rightarrow>
        let price = ask_price_1 r;
            volume = ask_volume_1 r;
            qty = min remaining volume
        in (total_cost + qty * price, remaining - qty))"

text \<open>
  The loop over the rows (lines 17 to 25): the body runs, then the loop leaves as soon
  as \<open>remaining \<le> 0\<close>.
\<close>

fun walk_levels :: "row list \<Rightarrow> real \<times> real \<Rightarrow> real \<times> real" where
  "walk_levels [] s = s"
| "walk_levels (r # rows) s =
     (let s' = fill_level s r in if snd s' \<le> 0 then s' else walk_levels rows s')"

definition compute_slippage :: "row list \<Rightarrow> real \<Rightarrow> real \<Rightarrow> error + slippage" where
  "compute_slippage order_book x mid_price =
     (case walk_levels order_book (0, x) of (total_cost, remaining) \<Rightarrow>
        if remaining > 0 then Inr NaN
        else if x = 0 then Inl ZeroDivisionError
        else Inr (Slippage (total_cost / x - mid_price)))"

section \<open>The input contract and the reference of the specification\<close>

text \<open>
  A snapshot as section 4.1 of the specification admits it: every level has a price
  above zero and a volume that is not negative.
\<close>

definition valid_snapshot :: "row list \<Rightarrow> bool" where
  "valid_snapshot levels = (\<forall>l \<in> set levels. 0 < ask_price_1 l \<and> 0 \<le> ask_volume_1 l)"

definition total_volume :: "row list \<Rightarrow> real" where
  "total_volume levels = sum_list (map ask_volume_1 levels)"

text \<open>
  The specification's reference: every level of the sequence is given its fill
  \<open>min remaining volume\<close> in order, none is left out, and the cost is the sum of
  fill times price over all levels.
\<close>

fun greedy_fills :: "row list \<Rightarrow> real \<Rightarrow> real list" where
  "greedy_fills [] remaining = []"
| "greedy_fills (l # ls) remaining =
     (let fill = min remaining (ask_volume_1 l) in fill # greedy_fills ls (remaining - fill))"

definition brute_force_cost :: "row list \<Rightarrow> real \<Rightarrow> real" where
  "brute_force_cost levels order_size =
     (\<Sum>(fill, l) \<leftarrow> zip (greedy_fills levels order_size) levels. fill * ask_price_1 l)"

text \<open>
  The same loop without its \<^verbatim>\<open>break\<close>: the body folded over every row to the end of
  the sequence, followed by the same two tests.
\<close>

definition walk_to_end :: "row list \<Rightarrow> real \<times> real \<Rightarrow> real \<times> real" where
  "walk_to_end rows s = foldl fill_level s rows"

definition compute_slippage_no_break :: "row list \<Rightarrow> real \<Rightarrow> real \<Rightarrow> error + slippage" where
  "compute_slippage_no_break order_book x mid_price =
     (case walk_to_end order_book (0, x) of (total_cost, remaining) \<Rightarrow>
        if remaining > 0 then Inr NaN
        else if x = 0 then Inl ZeroDivisionError
        else Inr (Slippage (total_cost / x - mid_price)))"

section \<open>analyze\_slippage\<close>

text \<open>
  \<^verbatim>\<open>np.arange(start, stop, step)\<close> for a step above zero: the values
  \<open>start + i * step\<close> below \<open>stop\<close>.
\<close>

definition arange :: "real \<Rightarrow> real \<Rightarrow> real \<Rightarrow> real list" where
  "arange start stop step =
     map (\<lambda>i. start + real i * step) [0..<nat \<lceil>(stop - start) / step\<rceil>]"

text \<open>The order sizes of line 63, \<^verbatim>\<open>X = np.arange(10, 300, 10)\<close>.\<close>

definition X_grid :: "real list" where
  "X_grid = arange 10 300 10"

text \<open>
  The list comprehension of line 66 evaluates its calls in order; the first one that
  raises ends it.
\<close>

fun collect :: "(error + 'a) list \<Rightarrow> error + 'a list" where
  "collect [] = Inr []"
| "collect (Inl e # _) = Inl e"
| "collect (Inr v # rest) = (case collect rest of Inl e \<Rightarrow> Inl e | Inr vs \<Rightarrow> Inr (v # vs))"

text \<open>
  Lines 57 to 78, from the loaded frame \<open>df\<close> to the pair \<open>(X_fit, Y_fit)\<close>: the order
  book is the two best-ask columns, the mid-price comes from the first row
  (\<^verbatim>\<open>iloc[0]\<close> raises on an empty frame), the slippage is computed at every order
  size, and the mask keeps the sizes whose slippage is not \<^verbatim>\<open>nan\<close>.
\<close>

definition fit_data :: "lob_row list \<Rightarrow> error + real list \<times> real list" where
  "fit_data df =
     (case df of
        [] \<Rightarrow> Inl IndexError
      | first # _ \<Rightarrow>
          let order_book =
                map (\<lambda>r. \<lparr>ask_price_1 = ask_price_1 r, ask_volume_1 = ask_volume_1 r\<rparr>) df;
              mid_price = (ask_price_1 first + bid_price_1 first) / 2
          in (case collect (map (\<lambda>x. compute_slippage order_book x mid_price) X_grid) of
                Inl e \<Rightarrow> Inl e
              | Inr Y \<Rightarrow>
                  let kept = [(x, y). (x, Slippage y) \<leftarrow> zip X_grid Y]
                  in Inr (map fst kept, map snd kept)))"

text \<open>
  How \<^verbatim>\<open>analyze_slippage\<close> ends when nothing is raised: it prints
  \<^verbatim>\<open>Not enough data points for fitting.\<close> and returns (line 80 to 82), or it reports
  the fitted \<open>alpha\<close> and \<open>delta\<close>.
\<close>

datatype report = NotEnoughData | Fitted real real

text \<open>
  \<^verbatim>\<open>analyze_slippage\<close> on the loaded frame. \<^verbatim>\<open>scipy.optimize.curve_fit\<close> is a
  library outside the repository, so the call \<^verbatim>\<open>curve_fit(power_model, X_fit, Y_fit)\<close>
  is a parameter: from the sizes and the slippages to the pair \<open>(alpha, delta)\<close>, or to
  the error it raises. The source has no handler around the call. Reading the file and
  plotting are left out.
\<close>

definition analyze_slippage ::
    "(real list \<Rightarrow> real list \<Rightarrow> error + real \<times> real) \<Rightarrow> lob_row list \<Rightarrow> error + report" where
  "analyze_slippage curve_fit df =
     (case fit_data df of
        Inl e \<Rightarrow> Inl e
      | Inr (X_fit, Y_fit) \<Rightarrow>
          if length Y_fit < 3 then Inr NotEnoughData
          else (case curve_fit X_fit Y_fit of
                  Inl e \<Rightarrow> Inl e
                | Inr (alpha, delta) \<Rightarrow> Inr (Fitted alpha delta)))"

text \<open>A solver that fails on every input, for running the function on a concrete frame.\<close>

definition never_converges :: "real list \<Rightarrow> real list \<Rightarrow> error + real \<times> real" where
  "never_converges X_fit Y_fit = Inl RuntimeError"

section \<open>float64 arithmetic\<close>

text \<open>
  IEEE 754 binary64 with the default rounding, to nearest with ties to even. \<open>rne\<close>
  rounds a real number to the nearest integer, a tie to the even one.
\<close>

definition rne :: "real \<Rightarrow> int" where
  "rne y =
     (let f = \<lfloor>y\<rfloor>; d = y - of_int f
      in if d < 1 / 2 then f else if 1 / 2 < d then f + 1 else if even f then f else f + 1)"

text \<open>
  The exponent of a magnitude \<open>m > 0\<close>: the \<open>e\<close> with \<open>2 ^ e \<le> m < 2 ^ (e + 1)\<close>, but
  not below \<open>- 1022\<close>, where the subnormal numbers begin. It is found by halving a
  magnitude from 1 on, and by doubling one below 1 at most 1022 times.
\<close>

function expo_up :: "real \<Rightarrow> int" where
  "expo_up m = (if 2 \<le> m then expo_up (m / 2) + 1 else 0)"
  by pat_completeness auto
termination
proof (relation "measure (\<lambda>m. nat \<lfloor>m\<rfloor>)")
  show "wf (measure (\<lambda>m::real. nat \<lfloor>m\<rfloor>))" by simp
next
  fix m :: real
  assume "2 \<le> m"
  then have "m / 2 \<le> m - 1" by simp
  then have "\<lfloor>m / 2\<rfloor> \<le> \<lfloor>m - 1\<rfloor>" by (rule floor_mono)
  moreover from \<open>2 \<le> m\<close> have "1 \<le> \<lfloor>m\<rfloor>" by linarith
  ultimately show "(m / 2, m) \<in> measure (\<lambda>m. nat \<lfloor>m\<rfloor>)" by simp
qed

fun expo_down :: "nat \<Rightarrow> real \<Rightarrow> int" where
  "expo_down 0 m = 0"
| "expo_down (Suc k) m = (if m < 1 then expo_down k (2 * m) - 1 else 0)"

definition expo :: "real \<Rightarrow> int" where
  "expo m = (if 1 \<le> m then expo_up m else expo_down 1022 m)"

text \<open>
  A magnitude is rounded to the nearest multiple of \<open>2 ^ (e - 52)\<close>, which leaves 53
  significant bits; \<open>rnd\<close> rounds a real number of either sign, before overflow is
  looked at.
\<close>

definition round_magnitude :: "real \<Rightarrow> real" where
  "round_magnitude m =
     (if m = 0 then 0
      else let u = 2 powi (expo m - 52) in of_int (rne (m / u)) * u)"

definition rnd :: "real \<Rightarrow> real" where
  "rnd x = (if x < 0 then - round_magnitude (- x) else round_magnitude x)"

text \<open>
  A float64 value: a finite number, an infinity, or nan. The two zeros are one value
  here; their sign shows only in a division by zero, where \<open>0\<close> is taken as \<open>+0.0\<close>.
  \<open>round64\<close> is the result of an operation whose exact value is \<open>x\<close>: the rounded
  number, or an infinity once its magnitude reaches \<open>2 ^ 1024\<close>.
\<close>

datatype f64 = Finite real | PosInf | NegInf | NotANumber

definition round64 :: "real \<Rightarrow> f64" where
  "round64 x =
     (let y = rnd x
      in if 2 ^ 1024 \<le> y then PosInf else if y \<le> - (2 ^ 1024) then NegInf else Finite y)"

text \<open>
  Negation, addition, subtraction, multiplication and division, with the special
  cases of the standard: an infinity absorbs a finite number, and \<open>inf - inf\<close>,
  \<open>0 * inf\<close>, \<open>0 / 0\<close> and \<open>inf / inf\<close> are nan.
\<close>

fun fneg :: "f64 \<Rightarrow> f64" where
  "fneg (Finite a) = Finite (- a)"
| "fneg PosInf = NegInf"
| "fneg NegInf = PosInf"
| "fneg NotANumber = NotANumber"

fun fadd :: "f64 \<Rightarrow> f64 \<Rightarrow> f64" where
  "fadd (Finite a) (Finite b) = round64 (a + b)"
| "fadd NotANumber _ = NotANumber"
| "fadd _ NotANumber = NotANumber"
| "fadd PosInf NegInf = NotANumber"
| "fadd NegInf PosInf = NotANumber"
| "fadd PosInf _ = PosInf"
| "fadd _ PosInf = PosInf"
| "fadd NegInf _ = NegInf"
| "fadd _ NegInf = NegInf"

definition fsub :: "f64 \<Rightarrow> f64 \<Rightarrow> f64" where
  "fsub a b = fadd a (fneg b)"

fun positive :: "f64 \<Rightarrow> bool" where
  "positive (Finite a) = (0 \<le> a)"
| "positive PosInf = True"
| "positive NegInf = False"
| "positive NotANumber = True"

definition infinity :: "bool \<Rightarrow> f64" where
  "infinity pos = (if pos then PosInf else NegInf)"

fun fmul :: "f64 \<Rightarrow> f64 \<Rightarrow> f64" where
  "fmul (Finite a) (Finite b) = round64 (a * b)"
| "fmul NotANumber _ = NotANumber"
| "fmul _ NotANumber = NotANumber"
| "fmul (Finite a) b = (if a = 0 then NotANumber else infinity (positive (Finite a) = positive b))"
| "fmul a (Finite b) = (if b = 0 then NotANumber else infinity (positive a = positive (Finite b)))"
| "fmul a b = infinity (positive a = positive b)"

fun fdiv :: "f64 \<Rightarrow> f64 \<Rightarrow> f64" where
  "fdiv (Finite a) (Finite b) =
     (if b = 0 then (if a = 0 then NotANumber else infinity (0 < a)) else round64 (a / b))"
| "fdiv NotANumber _ = NotANumber"
| "fdiv _ NotANumber = NotANumber"
| "fdiv (Finite a) _ = Finite 0"
| "fdiv a (Finite b) = infinity (positive a = positive (Finite b))"
| "fdiv _ _ = NotANumber"

text \<open>The comparisons \<^verbatim>\<open><\<close> and \<^verbatim>\<open><=\<close>; every comparison with nan is false.\<close>

fun lt64 :: "f64 \<Rightarrow> f64 \<Rightarrow> bool" where
  "lt64 (Finite a) (Finite b) = (a < b)"
| "lt64 NotANumber _ = False"
| "lt64 _ NotANumber = False"
| "lt64 PosInf _ = False"
| "lt64 _ PosInf = True"
| "lt64 NegInf (Finite b) = True"
| "lt64 _ NegInf = False"

fun le64 :: "f64 \<Rightarrow> f64 \<Rightarrow> bool" where
  "le64 (Finite a) (Finite b) = (a \<le> b)"
| "le64 NotANumber _ = False"
| "le64 _ NotANumber = False"
| "le64 _ PosInf = True"
| "le64 NegInf _ = True"
| "le64 PosInf _ = False"
| "le64 _ NegInf = False"

section \<open>compute\_slippage in float64\<close>

text \<open>
  Lines 12 to 32 again, every operation rounded. The cells of the frame, \<open>x\<close> and
  \<open>mid_price\<close> are float64 numbers, as in the data model of the specification.
  Python's \<^verbatim>\<open>min(remaining, volume)\<close> is \<open>volume\<close> when \<^verbatim>\<open>volume < remaining\<close> holds and
  \<open>remaining\<close> otherwise. \<^verbatim>\<open>np.nan\<close> is \<open>NotANumber\<close>, and the quotient at \<open>x = 0\<close> is
  the nan or the infinity that numpy gives with a warning, \<open>x\<close> taken as \<open>+0.0\<close> (on
  an empty book a plain Python float \<open>x = 0.0\<close> raises instead). Cells that are
  nan or infinite, and frames or order sizes of an integer type, are not part of this
  data model.
\<close>

definition fill_level64 :: "f64 \<times> f64 \<Rightarrow> row \<Rightarrow> f64 \<times> f64" where
  "fill_level64 s r =
     (case s of (total_cost, remaining) \<Rightarrow>
        let price = Finite (ask_price_1 r);
            volume = Finite (ask_volume_1 r);
            qty = (if lt64 volume remaining then volume else remaining)
        in (fadd total_cost (fmul qty price), fsub remaining qty))"

fun walk_levels64 :: "row list \<Rightarrow> f64 \<times> f64 \<Rightarrow> f64 \<times> f64" where
  "walk_levels64 [] s = s"
| "walk_levels64 (r # rows) s =
     (let s' = fill_level64 s r
      in if le64 (snd s') (Finite 0) then s' else walk_levels64 rows s')"

definition compute_slippage64 :: "row list \<Rightarrow> real \<Rightarrow> real \<Rightarrow> f64" where
  "compute_slippage64 order_book x mid_price =
     (case walk_levels64 order_book (Finite 0, Finite x) of (total_cost, remaining) \<Rightarrow>
        if lt64 (Finite 0) remaining then NotANumber
        else let avg_price = fdiv total_cost (Finite x)
             in fsub avg_price (Finite mid_price))"

text \<open>The float64 loop without its \<^verbatim>\<open>break\<close>, as \<open>compute_slippage_no_break\<close> above.\<close>

definition walk_to_end64 :: "row list \<Rightarrow> f64 \<times> f64 \<Rightarrow> f64 \<times> f64" where
  "walk_to_end64 rows s = foldl fill_level64 s rows"

definition compute_slippage64_no_break :: "row list \<Rightarrow> real \<Rightarrow> real \<Rightarrow> f64" where
  "compute_slippage64_no_break order_book x mid_price =
     (case walk_to_end64 order_book (Finite 0, Finite x) of (total_cost, remaining) \<Rightarrow>
        if lt64 (Finite 0) remaining then NotANumber
        else let avg_price = fdiv total_cost (Finite x)
             in fsub avg_price (Finite mid_price))"

section \<open>Whole lots, and the reference in float64\<close>

text \<open>
  Volumes and order sizes that are whole numbers up to \<open>2 ^ 53\<close> are subtracted
  without rounding. \<open>integer_lots\<close> says so of the volumes of a book and of an order
  size; \<open>integer_book\<close> says that the prices are whole numbers too, and \<open>book_value\<close>
  is the cost of the whole book. \<open>is_double\<close> holds of a number that is a float64.
\<close>

definition is_integer :: "real \<Rightarrow> bool" where
  "is_integer v = (of_int \<lfloor>v\<rfloor> = v)"

definition integer_lots :: "row list \<Rightarrow> real \<Rightarrow> bool" where
  "integer_lots levels order_size =
     (is_integer order_size \<and> order_size \<le> 2 ^ 53 \<and> (\<forall>l \<in> set levels. is_integer (ask_volume_1 l)))"

definition integer_book :: "row list \<Rightarrow> bool" where
  "integer_book levels =
     (\<forall>l \<in> set levels. is_integer (ask_price_1 l) \<and> is_integer (ask_volume_1 l))"

definition book_value :: "row list \<Rightarrow> real" where
  "book_value levels = sum_list (map (\<lambda>l. ask_volume_1 l * ask_price_1 l) levels)"

definition is_double :: "real \<Rightarrow> bool" where
  "is_double v = (round64 v = Finite v)"



text \<open>
  Two properties of a value that the proofs carry along: it is its own rounding, and
  it is not below zero.
\<close>

definition canonical :: "f64 \<Rightarrow> bool" where
  "canonical t = (case t of Finite a \<Rightarrow> round64 a = Finite a | _ \<Rightarrow> True)"

definition nonneg64 :: "f64 \<Rightarrow> bool" where
  "nonneg64 t = (case t of Finite a \<Rightarrow> 0 \<le> a | PosInf \<Rightarrow> True | _ \<Rightarrow> False)"

section \<open>The loop, step by step\<close>

lemma fill_level_simp:
  "fill_level (tc, r) l = (tc + min r (ask_volume_1 l) * ask_price_1 l, r - min r (ask_volume_1 l))"
  by (simp add: fill_level_def Let_def)

lemma walk_levels_Cons:
  "walk_levels (l # ls) (tc, r) =
     (if r \<le> ask_volume_1 l then (tc + r * ask_price_1 l, 0)
      else walk_levels ls (tc + ask_volume_1 l * ask_price_1 l, r - ask_volume_1 l))"
  by (simp add: fill_level_simp Let_def min_def)

lemma walk_to_end_Cons:
  "walk_to_end (l # ls) (tc, r) =
     walk_to_end ls (tc + min r (ask_volume_1 l) * ask_price_1 l, r - min r (ask_volume_1 l))"
  by (simp add: walk_to_end_def fill_level_simp)

lemma walk_to_end_filled:
  "\<forall>l \<in> set ls. 0 \<le> ask_volume_1 l \<Longrightarrow> walk_to_end ls (tc, 0) = (tc, 0)"
proof (induction ls)
  case Nil
  show ?case by (simp add: walk_to_end_def)
next
  case (Cons l ls)
  then show ?case by (simp add: walk_to_end_Cons)
qed

lemma walk_levels_eq_walk_to_end:
  "\<forall>l \<in> set ls. 0 \<le> ask_volume_1 l \<Longrightarrow> walk_levels ls (tc, r) = walk_to_end ls (tc, r)"
proof (induction ls arbitrary: tc r)
  case Nil
  show ?case by (simp add: walk_to_end_def)
next
  case (Cons l ls)
  show ?case
  proof (cases "r \<le> ask_volume_1 l")
    case True
    then have "walk_to_end (l # ls) (tc, r) = walk_to_end ls (tc + r * ask_price_1 l, 0)"
      by (simp add: walk_to_end_Cons)
    also have "\<dots> = (tc + r * ask_price_1 l, 0)"
      using Cons.prems by (simp add: walk_to_end_filled)
    finally show ?thesis using True by (simp add: walk_levels_Cons del: walk_levels.simps)
  next
    case False
    then have "walk_to_end (l # ls) (tc, r)
        = walk_to_end ls (tc + ask_volume_1 l * ask_price_1 l, r - ask_volume_1 l)"
      by (simp add: walk_to_end_Cons min_def)
    then show ?thesis using False Cons.IH Cons.prems by (simp add: walk_levels_Cons del: walk_levels.simps)
  qed
qed

lemma walk_levels_stops:
  "pre \<noteq> [] \<Longrightarrow> snd (walk_levels pre s) \<le> 0 \<Longrightarrow> walk_levels (pre @ post) s = walk_levels pre s"
proof (induction pre arbitrary: s)
  case Nil
  then show ?case by simp
next
  case (Cons l pre)
  show ?case
  proof (cases "snd (fill_level s l) \<le> 0")
    case True
    then show ?thesis by (simp add: Let_def)
  next
    case False
    show ?thesis
    proof (cases "pre = []")
      case True
      with False Cons.prems show ?thesis by (simp add: Let_def)
    next
      case nonempty: False
      with False Cons.prems Cons.IH [of "fill_level s l"] show ?thesis by (simp add: Let_def)
    qed
  qed
qed

section \<open>The brute-force cost\<close>

lemma brute_force_cost_Nil: "brute_force_cost [] y = 0"
  by (simp add: brute_force_cost_def)

lemma brute_force_cost_Cons:
  "brute_force_cost (l # ls) y =
     min y (ask_volume_1 l) * ask_price_1 l + brute_force_cost ls (y - min y (ask_volume_1 l))"
  by (simp add: brute_force_cost_def Let_def)

lemma brute_force_cost_zero:
  "\<forall>l \<in> set ls. 0 \<le> ask_volume_1 l \<Longrightarrow> brute_force_cost ls 0 = 0"
  by (induction ls) (simp_all add: brute_force_cost_Nil brute_force_cost_Cons)


lemma total_volume_nonneg:
  "\<forall>l \<in> set ls. 0 \<le> ask_volume_1 l \<Longrightarrow> 0 \<le> total_volume ls"
  by (induction ls) (simp_all add: total_volume_def)

lemma total_volume_Cons: "total_volume (l # ls) = ask_volume_1 l + total_volume ls"
  by (simp add: total_volume_def)


lemma walk_levels_skip_empty_level:
  "0 < r \<Longrightarrow> ask_volume_1 z = 0
     \<Longrightarrow> walk_levels (pre @ z # post) (tc, r) = walk_levels (pre @ post) (tc, r)"
proof (induction pre arbitrary: tc r)
  case Nil
  then show ?case by (simp add: walk_levels_Cons del: walk_levels.simps)
next
  case (Cons l pre)
  then show ?case by (simp add: walk_levels_Cons del: walk_levels.simps)
qed

section \<open>The average cost grows with the order size\<close>

lemma marginal_cost_lower_bound:
  "\<forall>l \<in> set ls. 0 \<le> ask_volume_1 l \<and> p \<le> ask_price_1 l \<Longrightarrow> 0 \<le> y1 \<Longrightarrow> y1 \<le> y2
     \<Longrightarrow> y2 \<le> total_volume ls
     \<Longrightarrow> p * (y2 - y1) \<le> brute_force_cost ls y2 - brute_force_cost ls y1"
proof (induction ls arbitrary: y1 y2)
  case Nil
  then have "y1 = 0" and "y2 = 0" by (simp_all add: total_volume_def)
  then show ?case by (simp add: brute_force_cost_Nil)
next
  case (Cons l ls)
  let ?v = "ask_volume_1 l" and ?q = "ask_price_1 l"
  from Cons.prems have rest: "\<forall>l \<in> set ls. 0 \<le> ask_volume_1 l \<and> p \<le> ask_price_1 l"
    and v: "0 \<le> ?v" and q: "p \<le> ?q" by simp_all
  from rest have zero: "brute_force_cost ls 0 = 0" by (simp add: brute_force_cost_zero)
  consider "y2 \<le> ?v" | "y1 \<le> ?v" "?v < y2" | "?v < y1" by linarith
  then show ?case
  proof cases
    case 1
    with Cons.prems have "brute_force_cost (l # ls) y2 - brute_force_cost (l # ls) y1
        = ?q * (y2 - y1)"
      by (simp add: brute_force_cost_Cons zero algebra_simps)
    moreover from q Cons.prems have "p * (y2 - y1) \<le> ?q * (y2 - y1)"
      by (intro mult_right_mono) simp_all
    ultimately show ?thesis by simp
  next
    case 2
    with rest Cons.prems have "p * ((y2 - ?v) - 0) \<le> brute_force_cost ls (y2 - ?v) - brute_force_cost ls 0"
      by (intro Cons.IH) (simp_all add: total_volume_Cons)
    then have tail: "p * (y2 - ?v) \<le> brute_force_cost ls (y2 - ?v)" by (simp add: zero)
    from 2 have "brute_force_cost (l # ls) y2 - brute_force_cost (l # ls) y1
        = ?q * (?v - y1) + brute_force_cost ls (y2 - ?v)"
      by (simp add: brute_force_cost_Cons zero min_def algebra_simps)
    moreover from q 2 have "p * (?v - y1) \<le> ?q * (?v - y1)"
      by (intro mult_right_mono) simp_all
    ultimately show ?thesis using tail by (simp add: algebra_simps)
  next
    case 3
    with rest Cons.prems
    have "p * ((y2 - ?v) - (y1 - ?v)) \<le> brute_force_cost ls (y2 - ?v) - brute_force_cost ls (y1 - ?v)"
      by (intro Cons.IH) (simp_all add: total_volume_Cons)
    moreover from 3 Cons.prems have "brute_force_cost (l # ls) y2 - brute_force_cost (l # ls) y1
        = brute_force_cost ls (y2 - ?v) - brute_force_cost ls (y1 - ?v)"
      by (simp add: brute_force_cost_Cons min_def)
    ultimately show ?thesis by simp
  qed
qed

lemma average_cost_mono:
  "\<forall>l \<in> set ls. 0 \<le> ask_volume_1 l \<Longrightarrow> sorted (map ask_price_1 ls) \<Longrightarrow> 0 < y1 \<Longrightarrow> y1 \<le> y2
     \<Longrightarrow> y2 \<le> total_volume ls
     \<Longrightarrow> brute_force_cost ls y1 * y2 \<le> brute_force_cost ls y2 * y1"
proof (induction ls arbitrary: y1 y2)
  case Nil
  then show ?case by (simp add: total_volume_def)
next
  case (Cons l ls)
  let ?v = "ask_volume_1 l" and ?q = "ask_price_1 l"
  from Cons.prems have vols: "\<forall>l \<in> set ls. 0 \<le> ask_volume_1 l" and v: "0 \<le> ?v"
    and srt: "sorted (map ask_price_1 ls)" by simp_all
  from Cons.prems have above: "\<forall>l' \<in> set ls. 0 \<le> ask_volume_1 l' \<and> ?q \<le> ask_price_1 l'"
    by simp
  from vols have zero: "brute_force_cost ls 0 = 0" by (simp add: brute_force_cost_zero)
  consider "y2 \<le> ?v" | "y1 \<le> ?v" "?v < y2" | "?v < y1" by linarith
  then show ?case
  proof cases
    case 1
    with Cons.prems show ?thesis by (simp add: brute_force_cost_Cons zero)
  next
    case 2
    with above Cons.prems
    have "?q * ((y2 - ?v) - 0) \<le> brute_force_cost ls (y2 - ?v) - brute_force_cost ls 0"
      by (intro marginal_cost_lower_bound) (simp_all add: total_volume_Cons)
    then have "?q * y2 \<le> ?v * ?q + brute_force_cost ls (y2 - ?v)"
      by (simp add: zero algebra_simps)
    with Cons.prems have "(?q * y2) * y1 \<le> (?v * ?q + brute_force_cost ls (y2 - ?v)) * y1"
      by (intro mult_right_mono) simp_all
    with 2 show ?thesis by (simp add: brute_force_cost_Cons zero min_def algebra_simps)
  next
    case 3
    define a b c1 c2 where "a = y1 - ?v" and "b = y2 - ?v"
      and "c1 = brute_force_cost ls (y1 - ?v)" and "c2 = brute_force_cost ls (y2 - ?v)"
    from 3 vols srt Cons.prems have ih: "c1 * b \<le> c2 * a"
      unfolding a_def b_def c1_def c2_def
      by (intro Cons.IH) (simp_all add: total_volume_Cons)
    from 3 above Cons.prems have "?q * (b - a) \<le> c2 - c1"
      unfolding a_def b_def c1_def c2_def
      by (intro marginal_cost_lower_bound) (simp_all add: total_volume_Cons)
    with v have "?v * (?q * (b - a)) \<le> ?v * (c2 - c1)"
      by (intro mult_left_mono)
    with ih have "(?v * ?q + c1) * (b + ?v) \<le> (?v * ?q + c2) * (a + ?v)"
      by (simp add: algebra_simps)
    moreover from 3 Cons.prems have "brute_force_cost (l # ls) y1 = ?v * ?q + c1"
      and "brute_force_cost (l # ls) y2 = ?v * ?q + c2"
      by (simp_all add: brute_force_cost_Cons min_def c1_def c2_def)
    moreover have "y1 = a + ?v" "y2 = b + ?v" by (simp_all add: a_def b_def)
    ultimately show ?thesis by simp
  qed
qed

section \<open>The greedy fills in closed form\<close>

text \<open>
  Level \<open>i\<close> is given what is left of the order after the volume of the levels before
  it, and at most its own volume.
\<close>

lemma length_greedy_fills: "length (greedy_fills ls y) = length ls"
  by (induction ls arbitrary: y) (simp_all add: Let_def)

lemma greedy_fills_nth:
  "\<forall>l \<in> set ls. 0 \<le> ask_volume_1 l \<Longrightarrow> 0 \<le> y \<Longrightarrow> i < length ls
     \<Longrightarrow> greedy_fills ls y ! i
         = min (ask_volume_1 (ls ! i)) (max 0 (y - total_volume (take i ls)))"
proof (induction ls arbitrary: y i)
  case Nil
  then show ?case by simp
next
  case (Cons l ls)
  show ?case
  proof (cases i)
    case 0
    with Cons.prems show ?thesis by (simp add: Let_def total_volume_def min_def max_def)
  next
    case (Suc j)
    from Cons.prems have vols: "\<forall>l \<in> set ls. 0 \<le> ask_volume_1 l" by simp
    then have "\<forall>l \<in> set (take j ls). 0 \<le> ask_volume_1 l"
      by (meson in_set_takeD)
    then have nonneg: "0 \<le> total_volume (take j ls)" by (rule total_volume_nonneg)
    from Cons.prems Suc vols
    have "greedy_fills ls (y - min y (ask_volume_1 l)) ! j
        = min (ask_volume_1 (ls ! j)) (max 0 (y - min y (ask_volume_1 l) - total_volume (take j ls)))"
      by (intro Cons.IH) (simp_all add: min_def)
    moreover have "max 0 (y - min y (ask_volume_1 l) - total_volume (take j ls))
        = max 0 (y - (ask_volume_1 l + total_volume (take j ls)))"
      using nonneg by (simp add: min_def max_def)
    ultimately show ?thesis using Suc by (simp add: Let_def total_volume_Cons)
  qed
qed

section \<open>The order sizes of the sweep\<close>

lemma X_grid_eval:
  "X_grid = [10, 20, 30, 40, 50, 60, 70, 80, 90, 100, 110, 120, 130, 140, 150, 160, 170, 180,
             190, 200, 210, 220, 230, 240, 250, 260, 270, 280, 290]"
  by (simp add: X_grid_def arange_def upt_conv_Cons)

section \<open>Rounding: bounds, monotonicity, exact values\<close>

lemma rne_of_int: "rne (of_int k) = k"
  by (simp add: rne_def)

lemma rne_lower: "\<lfloor>y\<rfloor> \<le> rne y"
  by (simp add: rne_def Let_def)

lemma rne_upper: "rne y \<le> \<lfloor>y\<rfloor> + 1"
  by (simp add: rne_def Let_def)

lemma rne_mono: "x \<le> y \<Longrightarrow> rne x \<le> rne y"
proof -
  assume le: "x \<le> y"
  then have "\<lfloor>x\<rfloor> \<le> \<lfloor>y\<rfloor>" by (rule floor_mono)
  then consider "\<lfloor>x\<rfloor> < \<lfloor>y\<rfloor>" | "\<lfloor>x\<rfloor> = \<lfloor>y\<rfloor>" by linarith
  then show ?thesis
  proof cases
    case 1
    have "rne x \<le> \<lfloor>x\<rfloor> + 1" by (rule rne_upper)
    also from 1 have "\<dots> \<le> \<lfloor>y\<rfloor>" by simp
    also have "\<dots> \<le> rne y" by (rule rne_lower)
    finally show ?thesis .
  next
    case 2
    with le show ?thesis by (simp add: rne_def Let_def)
  qed
qed

lemma rne_le_int: "y \<le> of_int k \<Longrightarrow> rne y \<le> k"
  using rne_mono [of y "of_int k"] by (simp add: rne_of_int)

lemma rne_ge_int: "of_int k \<le> y \<Longrightarrow> k \<le> rne y"
  using rne_mono [of "of_int k" y] by (simp add: rne_of_int)

lemma expo_up_bounds:
  "1 \<le> m \<Longrightarrow> 0 \<le> expo_up m \<and> 2 powi expo_up m \<le> m \<and> m < 2 powi (expo_up m + 1)"
proof (induction m rule: expo_up.induct)
  case (1 m)
  show ?case
  proof (cases "2 \<le> m")
    case True
    then have "1 \<le> m / 2" by simp
    with True "1.IH" have ih: "0 \<le> expo_up (m / 2)" "2 powi expo_up (m / 2) \<le> m / 2"
      "m / 2 < 2 powi (expo_up (m / 2) + 1)" by simp_all
    from True have eq: "expo_up m = expo_up (m / 2) + 1" by simp
    from ih have "2 powi (expo_up (m / 2) + 1) \<le> m"
      by (simp add: power_int_add)
    moreover from ih have "m < 2 powi (expo_up (m / 2) + 1 + 1)"
      by (simp add: power_int_add)
    ultimately show ?thesis using ih(1) by (simp only: eq) simp
  next
    case False
    with "1.prems" show ?thesis by simp
  qed
qed

lemma expo_down_bounds:
  "0 < m \<Longrightarrow> m < 1 \<Longrightarrow> 0 < k
     \<Longrightarrow> - int k \<le> expo_down k m \<and> expo_down k m < 0 \<and> m < 2 powi (expo_down k m + 1)
         \<and> (2 powi expo_down k m \<le> m \<or> expo_down k m = - int k)"
proof (induction k arbitrary: m)
  case 0
  then show ?case by simp
next
  case (Suc k)
  show ?case
  proof (cases "2 * m < 1")
    case True
    show ?thesis
    proof (cases "k = 0")
      case True
      with Suc.prems \<open>2 * m < 1\<close> show ?thesis by simp
    next
      case False
      with Suc.prems True Suc.IH [of "2 * m"]
      have ih: "- int k \<le> expo_down k (2 * m)" "expo_down k (2 * m) < 0"
        "2 * m < 2 powi (expo_down k (2 * m) + 1)"
        "2 powi expo_down k (2 * m) \<le> 2 * m \<or> expo_down k (2 * m) = - int k"
        by simp_all
      from Suc.prems have eq: "expo_down (Suc k) m = expo_down k (2 * m) - 1" by simp
      from ih(3) have "m < 2 powi (expo_down k (2 * m) - 1 + 1)"
        by (simp add: power_int_add)
      moreover from ih(4)
      have "2 powi (expo_down k (2 * m) - 1) \<le> m \<or> expo_down k (2 * m) - 1 = - int (Suc k)"
        by (auto simp: power_int_diff)
      ultimately show ?thesis using ih(1,2) by (simp only: eq) simp
    qed
  next
    case False
    with Suc.prems have eq: "expo_down (Suc k) m = - 1"
      by (cases k) simp_all
    from False Suc.prems show ?thesis
      by (simp only: eq) (simp add: power_int_minus)
  qed
qed

lemma expo_bounds:
  "0 < m \<Longrightarrow> - 1022 \<le> expo m \<and> m < 2 powi (expo m + 1)
     \<and> (2 powi expo m \<le> m \<or> expo m = - 1022)"
proof (cases "1 \<le> m")
  case True
  with expo_up_bounds [of m] show ?thesis by (simp add: expo_def)
next
  case False
  assume "0 < m"
  with False expo_down_bounds [of m 1022] show ?thesis by (simp add: expo_def)
qed

lemma round_magnitude_unfold:
  "0 < m \<Longrightarrow> round_magnitude m = of_int (rne (m / 2 powi (expo m - 52))) * 2 powi (expo m - 52)"
  by (simp add: round_magnitude_def Let_def)

lemma powi_top: "(2::real) powi (e + 1) = 2 ^ 53 * 2 powi (e - 52)"
  using power_int_add [of "2::real" 53 "e - 52"] by (simp add: add.commute)

lemma powi_bottom: "(2::real) powi e = 2 ^ 52 * 2 powi (e - 52)"
  using power_int_add [of "2::real" 52 "e - 52"] by simp

lemma scaled_below: "0 < m \<Longrightarrow> m / 2 powi (expo m - 52) < 2 ^ 53"
proof -
  assume pos: "0 < m"
  then have "m < 2 powi (expo m + 1)" using expo_bounds by blast
  then have "m < 2 ^ 53 * 2 powi (expo m - 52)" by (simp only: powi_top)
  then show ?thesis by (simp add: pos_divide_less_eq)
qed

lemma scaled_above: "0 < m \<Longrightarrow> 2 powi expo m \<le> m \<Longrightarrow> 2 ^ 52 \<le> m / 2 powi (expo m - 52)"
proof -
  assume pos: "0 < m" and low: "2 powi expo m \<le> m"
  have "(2 ^ 52 :: real) * 2 powi (expo m - 52) = 2 powi expo m" by (simp only: powi_bottom [symmetric])
  with low have "(2 ^ 52 :: real) * 2 powi (expo m - 52) \<le> m" by simp
  then show ?thesis by (simp add: pos_le_divide_eq)
qed

lemma round_magnitude_nonneg: "0 \<le> m \<Longrightarrow> 0 \<le> round_magnitude m"
proof (cases "m = 0")
  case True
  then show ?thesis by (simp add: round_magnitude_def)
next
  case False
  assume "0 \<le> m"
  with False have pos: "0 < m" by simp
  then have "(0::real) \<le> m / 2 powi (expo m - 52)" by simp
  then have "0 \<le> rne (m / 2 powi (expo m - 52))"
    using rne_ge_int [of 0] by simp
  with pos show ?thesis by (simp add: round_magnitude_unfold)
qed

lemma round_magnitude_upper: "0 < m \<Longrightarrow> round_magnitude m \<le> 2 powi (expo m + 1)"
proof -
  assume pos: "0 < m"
  then have "m / 2 powi (expo m - 52) \<le> of_int (2 ^ 53)"
    using scaled_below [of m] by simp
  then have "rne (m / 2 powi (expo m - 52)) \<le> 2 ^ 53" by (rule rne_le_int)
  then have "(of_int (rne (m / 2 powi (expo m - 52))) :: real) \<le> of_int (2 ^ 53)"
    by (simp only: of_int_le_iff)
  then have "(of_int (rne (m / 2 powi (expo m - 52))) :: real) \<le> 2 ^ 53" by simp
  then have "of_int (rne (m / 2 powi (expo m - 52))) * 2 powi (expo m - 52)
      \<le> (2 ^ 53 :: real) * 2 powi (expo m - 52)"
    by (intro mult_right_mono) simp_all
  then have "of_int (rne (m / 2 powi (expo m - 52))) * 2 powi (expo m - 52)
      \<le> (2::real) powi (expo m + 1)"
    by (simp only: powi_top)
  with pos show ?thesis by (simp only: round_magnitude_unfold)
qed

lemma round_magnitude_lower:
  "0 < m \<Longrightarrow> 2 powi expo m \<le> m \<Longrightarrow> 2 powi expo m \<le> round_magnitude m"
proof -
  assume pos: "0 < m" and low: "2 powi expo m \<le> m"
  then have "of_int (2 ^ 52) \<le> m / 2 powi (expo m - 52)"
    using scaled_above [of m] by simp
  then have "2 ^ 52 \<le> rne (m / 2 powi (expo m - 52))" by (rule rne_ge_int)
  then have "(of_int (2 ^ 52) :: real) \<le> of_int (rne (m / 2 powi (expo m - 52)))"
    by (simp only: of_int_le_iff)
  then have "(2 ^ 52 :: real) \<le> of_int (rne (m / 2 powi (expo m - 52)))" by simp
  then have "(2 ^ 52 :: real) * 2 powi (expo m - 52)
      \<le> of_int (rne (m / 2 powi (expo m - 52))) * 2 powi (expo m - 52)"
    by (intro mult_right_mono) simp_all
  then have "(2::real) powi expo m
      \<le> of_int (rne (m / 2 powi (expo m - 52))) * 2 powi (expo m - 52)"
    by (simp only: powi_bottom [symmetric])
  with pos show ?thesis by (simp only: round_magnitude_unfold)
qed

lemma expo_mono: "0 < x \<Longrightarrow> x \<le> y \<Longrightarrow> expo x \<le> expo y"
proof (rule ccontr)
  assume pos: "0 < x" and le: "x \<le> y" and "\<not> expo x \<le> expo y"
  then have less: "expo y + 1 \<le> expo x" by simp
  from pos le have "0 < y" by simp
  then have "- 1022 \<le> expo y" and upper: "y < 2 powi (expo y + 1)"
    using expo_bounds by blast+
  with less have "expo x \<noteq> - 1022" by simp
  with pos have "2 powi expo x \<le> x" using expo_bounds by blast
  moreover from less have "(2::real) powi (expo y + 1) \<le> 2 powi expo x"
    by (intro power_int_increasing) simp_all
  ultimately show False using le upper by simp
qed

lemma round_magnitude_mono: "0 \<le> x \<Longrightarrow> x \<le> y \<Longrightarrow> round_magnitude x \<le> round_magnitude y"
proof (cases "x = 0")
  case True
  assume "0 \<le> x" "x \<le> y"
  with True show ?thesis using round_magnitude_nonneg [of y] by (simp add: round_magnitude_def)
next
  case False
  assume "0 \<le> x" and le: "x \<le> y"
  with False have posx: "0 < x" and posy: "0 < y" by simp_all
  from posx le have "expo x \<le> expo y" by (rule expo_mono)
  then consider "expo x = expo y" | "expo x < expo y" by linarith
  then show ?thesis
  proof cases
    case 1
    from le have "x / 2 powi (expo y - 52) \<le> y / 2 powi (expo y - 52)"
      by (intro divide_right_mono) simp_all
    then have "rne (x / 2 powi (expo y - 52)) \<le> rne (y / 2 powi (expo y - 52))"
      by (rule rne_mono)
    then have "(of_int (rne (x / 2 powi (expo y - 52))) :: real) * 2 powi (expo y - 52)
        \<le> of_int (rne (y / 2 powi (expo y - 52))) * 2 powi (expo y - 52)"
      by (intro mult_right_mono) simp_all
    with 1 posx posy show ?thesis by (simp add: round_magnitude_unfold)
  next
    case 2
    from posx have "- 1022 \<le> expo x" using expo_bounds by blast
    with 2 have "expo y \<noteq> - 1022" by simp
    with posy have "2 powi expo y \<le> y" using expo_bounds by blast
    with posy have "2 powi expo y \<le> round_magnitude y" by (rule round_magnitude_lower)
    moreover from posx have "round_magnitude x \<le> 2 powi (expo x + 1)"
      by (rule round_magnitude_upper)
    moreover from 2 have "(2::real) powi (expo x + 1) \<le> 2 powi expo y"
      by (intro power_int_increasing) simp_all
    ultimately show ?thesis by simp
  qed
qed

lemma round_magnitude_exact:
  "0 < m \<Longrightarrow> m / 2 powi (expo m - 52) = of_int z \<Longrightarrow> round_magnitude m = m"
proof -
  assume pos: "0 < m" and int: "m / 2 powi (expo m - 52) = of_int z"
  then have "rne (m / 2 powi (expo m - 52)) = z" by (simp only: rne_of_int)
  with pos have "round_magnitude m = of_int z * 2 powi (expo m - 52)"
    by (simp only: round_magnitude_unfold)
  also from int have "\<dots> = m" by (simp add: field_simps)
  finally show ?thesis .
qed

lemma round_magnitude_grid:
  assumes k: "0 < k" "k \<le> 2 ^ 53" and j: "- 1074 \<le> j"
  shows "round_magnitude (of_int k * 2 powi j) = of_int k * 2 powi j"
proof -
  let ?m = "of_int k * 2 powi j :: real"
  let ?e = "expo ?m"
  from k have pos: "0 < ?m" by simp
  show ?thesis
  proof (cases "?e - 52 \<le> j")
    case True
    define n where "n = nat (j - (?e - 52))"
    from True have jn: "j = int n + (?e - 52)" by (simp add: n_def)
    define u :: real where "u = 2 powi (?e - 52)"
    have u: "0 < u" by (simp add: u_def)
    have "(2::real) powi j = 2 powi (int n) * u"
      unfolding u_def by (subst jn, rule power_int_add) simp
    then have "of_int k * 2 powi j / u = of_int k * (2 powi (int n) * u) / u" by simp
    also from u have "\<dots> = of_int k * 2 powi (int n)" by simp
    also have "\<dots> = of_int (k * 2 ^ n)" by simp
    finally have "?m / 2 powi (?e - 52) = of_int (k * 2 ^ n)" by (simp only: u_def)
    with pos show ?thesis by (rule round_magnitude_exact)
  next
    case False
    then have big: "j + 53 \<le> ?e" by simp
    with j have "?e \<noteq> - 1022" by simp
    with pos have low: "2 powi ?e \<le> ?m" using expo_bounds by blast
    from k have "(of_int k :: real) \<le> of_int (2 ^ 53)" by (simp only: of_int_le_iff)
    then have "(of_int k :: real) \<le> 2 ^ 53" by simp
    then have "?m \<le> 2 ^ 53 * 2 powi j" by (intro mult_right_mono) simp_all
    also have "\<dots> = 2 powi (53 + j)" by (subst power_int_add) simp_all
    also from big have "\<dots> \<le> 2 powi ?e" by (intro power_int_increasing) simp_all
    finally have "?m = 2 powi ?e" using low by simp
    then have "?m = 2 ^ 52 * 2 powi (?e - 52)" by (simp only: powi_bottom [symmetric])
    then have "?m / 2 powi (?e - 52) = of_int (2 ^ 52)"
      by (simp add: nonzero_divide_eq_eq)
    with pos show ?thesis by (rule round_magnitude_exact)
  qed
qed

lemma round_magnitude_idem: "0 \<le> m \<Longrightarrow> round_magnitude (round_magnitude m) = round_magnitude m"
proof (cases "m = 0")
  case True
  then show ?thesis by (simp add: round_magnitude_def)
next
  case False
  assume "0 \<le> m"
  with False have pos: "0 < m" by simp
  define K where "K = rne (m / 2 powi (expo m - 52))"
  from pos have eq: "round_magnitude m = of_int K * 2 powi (expo m - 52)"
    by (simp only: round_magnitude_unfold K_def)
  from pos have "(0::real) \<le> m / 2 powi (expo m - 52)" by simp
  then have K0: "0 \<le> K" unfolding K_def using rne_ge_int [of 0] by simp
  from pos have "m / 2 powi (expo m - 52) \<le> of_int (2 ^ 53)"
    using scaled_below [of m] by simp
  then have K53: "K \<le> 2 ^ 53" unfolding K_def by (rule rne_le_int)
  from pos have e: "- 1074 \<le> expo m - 52" using expo_bounds [of m] by simp
  show ?thesis
  proof (cases "K = 0")
    case True
    with eq show ?thesis by (simp add: round_magnitude_def)
  next
    case False
    with K0 have "0 < K" by simp
    then have "round_magnitude (of_int K * 2 powi (expo m - 52)) = of_int K * 2 powi (expo m - 52)"
      using K53 e by (rule round_magnitude_grid)
    then show ?thesis by (simp only: eq)
  qed
qed

lemma rnd_zero [simp]: "rnd 0 = 0"
  by (simp add: rnd_def round_magnitude_def)

lemma rnd_minus: "rnd (- x) = - rnd x"
  by (simp add: rnd_def round_magnitude_def)

lemma rnd_nonneg: "0 \<le> x \<Longrightarrow> 0 \<le> rnd x"
  by (simp add: rnd_def round_magnitude_nonneg)

lemma rnd_mono: "x \<le> y \<Longrightarrow> rnd x \<le> rnd y"
proof -
  assume le: "x \<le> y"
  consider "0 \<le> x" | "x < 0" "0 \<le> y" | "y < 0" by linarith
  then show ?thesis
  proof cases
    case 1
    with le show ?thesis by (simp add: rnd_def round_magnitude_mono)
  next
    case 2
    then have "0 \<le> round_magnitude (- x)" and "0 \<le> round_magnitude y"
      by (simp_all add: round_magnitude_nonneg)
    with 2 show ?thesis by (simp add: rnd_def)
  next
    case 3
    with le have "round_magnitude (- y) \<le> round_magnitude (- x)"
      by (intro round_magnitude_mono) simp_all
    with 3 le show ?thesis by (simp add: rnd_def)
  qed
qed

lemma rnd_idem: "rnd (rnd x) = rnd x"
proof (cases "x < 0")
  case True
  then have "0 \<le> round_magnitude (- x)" by (simp add: round_magnitude_nonneg)
  then have "rnd (- round_magnitude (- x)) = - round_magnitude (round_magnitude (- x))"
    by (cases "round_magnitude (- x) = 0") (simp_all add: rnd_def round_magnitude_def)
  with True show ?thesis by (simp add: rnd_def round_magnitude_idem)
next
  case False
  then have "0 \<le> round_magnitude x" by (simp add: round_magnitude_nonneg)
  with False show ?thesis by (simp add: rnd_def round_magnitude_idem)
qed

lemma rnd_of_int: "\<bar>n\<bar> \<le> 2 ^ 53 \<Longrightarrow> rnd (of_int n) = of_int n"
proof -
  assume bound: "\<bar>n\<bar> \<le> 2 ^ 53"
  consider "n = 0" | "0 < n" | "n < 0" by linarith
  then show ?thesis
  proof cases
    case 1
    then show ?thesis by simp
  next
    case 2
    with bound have "round_magnitude (of_int n * 2 powi 0) = of_int n * 2 powi 0"
      by (intro round_magnitude_grid) simp_all
    with 2 show ?thesis by (simp add: rnd_def)
  next
    case 3
    with bound have "round_magnitude (of_int (- n) * 2 powi 0) = of_int (- n) * 2 powi 0"
      by (intro round_magnitude_grid) simp_all
    with 3 show ?thesis by (simp add: rnd_def)
  qed
qed

section \<open>The float64 loop on whole lots\<close>

lemma round64_not_nan [simp]: "round64 x \<noteq> NotANumber"
  by (simp add: round64_def Let_def)

lemma round64_small: "\<bar>x\<bar> \<le> 2 ^ 53 \<Longrightarrow> round64 x = Finite (rnd x)"
proof -
  assume bound: "\<bar>x\<bar> \<le> 2 ^ 53"
  have top: "rnd (of_int (2 ^ 53)) = of_int (2 ^ 53)" by (rule rnd_of_int) simp
  from bound have "rnd x \<le> rnd (of_int (2 ^ 53))" by (intro rnd_mono) simp
  then have upper: "rnd x \<le> 2 ^ 53" by (simp only: top) simp
  from bound have "rnd (- of_int (2 ^ 53)) \<le> rnd x" by (intro rnd_mono) simp
  then have lower: "- (2 ^ 53) \<le> rnd x" by (simp only: rnd_minus top) simp
  have "(2 ^ 53 :: real) < 2 ^ 1024" by simp
  with upper lower show ?thesis by (simp add: round64_def Let_def)
qed

lemma round64_of_int: "\<bar>n\<bar> \<le> 2 ^ 53 \<Longrightarrow> round64 (of_int n) = Finite (of_int n)"
proof -
  assume bound: "\<bar>n\<bar> \<le> 2 ^ 53"
  then have "\<bar>of_int n :: real\<bar> \<le> of_int (2 ^ 53)"
    by (simp only: of_int_abs [symmetric] of_int_le_iff)
  then have "round64 (of_int n) = Finite (rnd (of_int n))" by (intro round64_small) simp
  with bound show ?thesis by (simp add: rnd_of_int)
qed

lemma round64_integer:
  "is_integer v \<Longrightarrow> \<bar>v\<bar> \<le> 2 ^ 53 \<Longrightarrow> round64 v = Finite v"
proof -
  assume int: "is_integer v" and bound: "\<bar>v\<bar> \<le> 2 ^ 53"
  from int have v: "v = of_int \<lfloor>v\<rfloor>" unfolding is_integer_def by (rule sym)
  from bound have "\<bar>of_int \<lfloor>v\<rfloor> :: real\<bar> \<le> of_int (2 ^ 53)" using v by simp
  then have "\<bar>\<lfloor>v\<rfloor>\<bar> \<le> 2 ^ 53" by (simp only: of_int_abs [symmetric] of_int_le_iff)
  then have "round64 (of_int \<lfloor>v\<rfloor>) = Finite (of_int \<lfloor>v\<rfloor>)" by (rule round64_of_int)
  with v show ?thesis by simp
qed

lemma is_integer_diff: "is_integer a \<Longrightarrow> is_integer b \<Longrightarrow> is_integer (a - b)"
  by (metis is_integer_def of_int_diff floor_of_int)

lemma is_integer_add: "is_integer a \<Longrightarrow> is_integer b \<Longrightarrow> is_integer (a + b)"
  by (metis is_integer_def of_int_add floor_of_int)

lemma is_integer_mult: "is_integer a \<Longrightarrow> is_integer b \<Longrightarrow> is_integer (a * b)"
  by (metis is_integer_def of_int_mult floor_of_int)

lemma is_integer_zero [simp]: "is_integer 0"
  by (simp add: is_integer_def)

lemma is_integer_pos: "is_integer a \<Longrightarrow> 0 < a \<Longrightarrow> 1 \<le> a"
proof -
  assume int: "is_integer a" and pos: "0 < a"
  from int have a: "a = of_int \<lfloor>a\<rfloor>" unfolding is_integer_def by (rule sym)
  with pos have "0 < (of_int \<lfloor>a\<rfloor> :: real)" by simp
  then have "0 < \<lfloor>a\<rfloor>" by (simp only: of_int_0_less_iff)
  then have "1 \<le> \<lfloor>a\<rfloor>" by linarith
  then have "(1::real) \<le> of_int \<lfloor>a\<rfloor>" by (simp only: of_int_1_le_iff)
  with a show ?thesis by simp
qed

lemma walk_levels64_Cons:
  assumes "is_integer r" "is_integer (ask_volume_1 l)" "0 \<le> ask_volume_1 l" "0 < r" "r \<le> 2 ^ 53"
  shows "walk_levels64 (l # ls) (tc, Finite r) =
     (if r \<le> ask_volume_1 l
      then (fadd tc (fmul (Finite r) (Finite (ask_price_1 l))), Finite 0)
      else walk_levels64 ls (fadd tc (fmul (Finite (ask_volume_1 l)) (Finite (ask_price_1 l))),
             Finite (r - ask_volume_1 l)))"
proof (cases "r \<le> ask_volume_1 l")
  case True
  have "fsub (Finite r) (Finite r) = Finite 0"
    using round64_of_int [of 0] by (simp add: fsub_def)
  with True show ?thesis by (simp add: fill_level64_def Let_def)
next
  case False
  with assms have "is_integer (r - ask_volume_1 l)" and "\<bar>r - ask_volume_1 l\<bar> \<le> 2 ^ 53"
    by (simp_all add: is_integer_diff)
  then have "round64 (r - ask_volume_1 l) = Finite (r - ask_volume_1 l)"
    by (rule round64_integer)
  then have "fsub (Finite r) (Finite (ask_volume_1 l)) = Finite (r - ask_volume_1 l)"
    by (simp add: fsub_def)
  with False show ?thesis by (simp add: fill_level64_def Let_def)
qed

lemma walk_levels64_unfilled:
  "\<forall>l \<in> set ls. 0 \<le> ask_volume_1 l \<and> is_integer (ask_volume_1 l) \<Longrightarrow> is_integer r
     \<Longrightarrow> r \<le> 2 ^ 53 \<Longrightarrow> total_volume ls < r
     \<Longrightarrow> \<exists>tc' r'. walk_levels64 ls (tc, Finite r) = (tc', Finite r') \<and> 0 < r'"
proof (induction ls arbitrary: tc r)
  case Nil
  then show ?case by (simp add: total_volume_def)
next
  case (Cons l ls)
  from Cons.prems have nonneg: "0 \<le> total_volume ls"
    by (simp add: total_volume_nonneg)
  with Cons.prems have less: "\<not> r \<le> ask_volume_1 l" and pos: "0 < r"
    by (simp_all add: total_volume_Cons)
  from Cons.prems less
  have "\<exists>tc' r'. walk_levels64 ls (fadd tc (fmul (Finite (ask_volume_1 l)) (Finite (ask_price_1 l))),
      Finite (r - ask_volume_1 l)) = (tc', Finite r') \<and> 0 < r'"
    by (intro Cons.IH) (simp_all add: total_volume_Cons is_integer_diff)
  moreover from Cons.prems pos less
  have "walk_levels64 (l # ls) (tc, Finite r)
      = walk_levels64 ls (fadd tc (fmul (Finite (ask_volume_1 l)) (Finite (ask_price_1 l))),
          Finite (r - ask_volume_1 l))"
    by (subst walk_levels64_Cons) simp_all
  ultimately show ?case by simp
qed

lemma round64_zero [simp]: "round64 0 = Finite 0"
  by (simp add: round64_def)

lemma nonneg64_simps [simp]:
  "nonneg64 (Finite a) = (0 \<le> a)" "nonneg64 PosInf" "\<not> nonneg64 NegInf" "\<not> nonneg64 NotANumber"
  by (simp_all add: nonneg64_def)

lemma round64_canonical: "canonical (round64 x)"
  by (simp add: canonical_def round64_def Let_def rnd_idem)

lemma fadd_canonical: "canonical (fadd a b)"
  by (cases a; cases b) (simp_all add: round64_canonical, simp_all add: canonical_def)

lemma fadd_zero_right: "canonical t \<Longrightarrow> fadd t (Finite 0) = t"
  by (cases t) (simp_all add: canonical_def)

lemma fmul_zero_left: "fmul (Finite 0) (Finite p) = Finite 0"
  by simp








lemma book_value_Cons: "book_value (l # ls) = ask_volume_1 l * ask_price_1 l + book_value ls"
  by (simp add: book_value_def)

lemma book_value_nonneg:
  "\<forall>l \<in> set ls. 0 \<le> ask_volume_1 l \<and> 0 \<le> ask_price_1 l \<Longrightarrow> 0 \<le> book_value ls"
  by (induction ls) (simp_all add: book_value_def)

lemma total_volume_le_book_value:
  "\<forall>l \<in> set ls. 0 \<le> ask_volume_1 l \<and> 1 \<le> ask_price_1 l \<Longrightarrow> total_volume ls \<le> book_value ls"
proof (induction ls)
  case Nil
  show ?case by (simp add: total_volume_def book_value_def)
next
  case (Cons l ls)
  then have "ask_volume_1 l * 1 \<le> ask_volume_1 l * ask_price_1 l"
    by (intro mult_left_mono) simp_all
  with Cons show ?case by (simp add: total_volume_Cons book_value_Cons)
qed

lemma fadd_fmul_exact:
  assumes "is_integer tc" "is_integer q" "is_integer p" "0 \<le> tc" "0 \<le> q" "0 \<le> p"
    and "tc + q * p \<le> 2 ^ 53"
  shows "fadd (Finite tc) (fmul (Finite q) (Finite p)) = Finite (tc + q * p)"
proof -
  from assms have qp: "0 \<le> q * p" by simp
  with assms have "\<bar>q * p\<bar> \<le> 2 ^ 53" by simp
  with assms have "round64 (q * p) = Finite (q * p)"
    by (intro round64_integer is_integer_mult)
  moreover from assms qp have "round64 (tc + q * p) = Finite (tc + q * p)"
    by (intro round64_integer is_integer_add is_integer_mult) simp_all
  ultimately show ?thesis by simp
qed

lemma walk_levels64_exact:
  "\<forall>l \<in> set ls. 0 \<le> ask_volume_1 l \<and> is_integer (ask_volume_1 l)
        \<and> 0 \<le> ask_price_1 l \<and> is_integer (ask_price_1 l)
     \<Longrightarrow> is_integer tc \<Longrightarrow> 0 \<le> tc \<Longrightarrow> is_integer r \<Longrightarrow> 0 < r \<Longrightarrow> r \<le> 2 ^ 53
     \<Longrightarrow> r \<le> total_volume ls \<Longrightarrow> tc + book_value ls \<le> 2 ^ 53
     \<Longrightarrow> walk_levels64 ls (Finite tc, Finite r) = (Finite (tc + brute_force_cost ls r), Finite 0)"
proof (induction ls arbitrary: tc r)
  case Nil
  then show ?case by (simp add: total_volume_def)
next
  case (Cons l ls)
  let ?v = "ask_volume_1 l" and ?p = "ask_price_1 l"
  from Cons.prems have rest: "\<forall>l \<in> set ls. 0 \<le> ask_volume_1 l \<and> is_integer (ask_volume_1 l)
        \<and> 0 \<le> ask_price_1 l \<and> is_integer (ask_price_1 l)"
    and v: "0 \<le> ?v" "is_integer ?v" and p: "0 \<le> ?p" "is_integer ?p" by simp_all
  from rest have rest_value: "0 \<le> book_value ls" by (intro book_value_nonneg) simp
  from rest have zero: "brute_force_cost ls 0 = 0" by (intro brute_force_cost_zero) simp
  from Cons.prems v
  have step: "walk_levels64 (l # ls) (Finite tc, Finite r) =
     (if r \<le> ?v
      then (fadd (Finite tc) (fmul (Finite r) (Finite ?p)), Finite 0)
      else walk_levels64 ls (fadd (Finite tc) (fmul (Finite ?v) (Finite ?p)), Finite (r - ?v)))"
    by (intro walk_levels64_Cons) simp_all
  from Cons.prems rest_value have bound: "tc + ?v * ?p \<le> 2 ^ 53"
    by (simp add: book_value_Cons)
  show ?case
  proof (cases "r \<le> ?v")
    case True
    with p have "r * ?p \<le> ?v * ?p" by (intro mult_right_mono) simp_all
    with bound have "tc + r * ?p \<le> 2 ^ 53" by simp
    with Cons.prems p
    have "fadd (Finite tc) (fmul (Finite r) (Finite ?p)) = Finite (tc + r * ?p)"
      by (intro fadd_fmul_exact) simp_all
    with True show ?thesis
      by (simp add: step brute_force_cost_Cons zero
          del: walk_levels64.simps fmul.simps fadd.simps)
  next
    case False
    from Cons.prems v p bound
    have acc: "fadd (Finite tc) (fmul (Finite ?v) (Finite ?p)) = Finite (tc + ?v * ?p)"
      by (intro fadd_fmul_exact) simp_all
    from False Cons.prems rest v p
    have "walk_levels64 ls (Finite (tc + ?v * ?p), Finite (r - ?v))
        = (Finite (tc + ?v * ?p + brute_force_cost ls (r - ?v)), Finite 0)"
      by (intro Cons.IH)
        (simp_all add: is_integer_add is_integer_mult is_integer_diff total_volume_Cons
          book_value_Cons)
    with False show ?thesis
      by (simp add: step acc brute_force_cost_Cons min_def
          del: walk_levels64.simps fmul.simps fadd.simps)
  qed
qed

lemma round64_mono: "a \<le> b \<Longrightarrow> le64 (round64 a) (round64 b)"
proof -
  assume "a \<le> b"
  then have "rnd a \<le> rnd b" by (rule rnd_mono)
  moreover have "- (2 ^ 1024) < (2 ^ 1024 :: real)" by simp
  ultimately show ?thesis by (auto simp: round64_def Let_def)
qed

lemma brute_force_cost_nonneg:
  "\<forall>l \<in> set ls. 0 \<le> ask_volume_1 l \<and> 0 \<le> ask_price_1 l \<Longrightarrow> 0 \<le> y \<Longrightarrow> 0 \<le> brute_force_cost ls y"
proof (induction ls arbitrary: y)
  case Nil
  show ?case by (simp add: brute_force_cost_Nil)
next
  case (Cons l ls)
  then have "0 \<le> brute_force_cost ls (y - min y (ask_volume_1 l))"
    by (intro Cons.IH) simp_all
  moreover from Cons.prems have "0 \<le> min y (ask_volume_1 l) * ask_price_1 l" by simp
  ultimately show ?case by (simp add: brute_force_cost_Cons)
qed

lemma brute_force_cost_le_book_value:
  "\<forall>l \<in> set ls. 0 \<le> ask_volume_1 l \<and> 0 \<le> ask_price_1 l \<Longrightarrow> 0 \<le> y
     \<Longrightarrow> brute_force_cost ls y \<le> book_value ls"
proof (induction ls arbitrary: y)
  case Nil
  show ?case by (simp add: brute_force_cost_Nil book_value_def)
next
  case (Cons l ls)
  then have "brute_force_cost ls (y - min y (ask_volume_1 l)) \<le> book_value ls"
    by (intro Cons.IH) simp_all
  moreover from Cons.prems
  have "min y (ask_volume_1 l) * ask_price_1 l \<le> ask_volume_1 l * ask_price_1 l"
    by (intro mult_right_mono) simp_all
  ultimately show ?case by (simp add: brute_force_cost_Cons book_value_Cons)
qed

lemma fadd_finite_not_nan: "b \<noteq> NotANumber \<Longrightarrow> fadd (Finite a) b \<noteq> NotANumber"
  by (cases b) simp_all

lemma fdiv_finite_not_nan: "t \<noteq> NotANumber \<Longrightarrow> x \<noteq> 0 \<Longrightarrow> fdiv t (Finite x) \<noteq> NotANumber"
  by (cases t) (simp_all add: infinity_def)

lemma fsub_not_nan: "t \<noteq> NotANumber \<Longrightarrow> fsub t (Finite m) \<noteq> NotANumber"
  by (cases t) (simp_all add: fsub_def)

text \<open>The float64 loop at a level without volume, and after the order is filled.\<close>

lemma lt64_not_le64: "lt64 (Finite 0) t \<Longrightarrow> \<not> le64 t (Finite 0)"
  by (cases t) simp_all

lemma not_le64_lt64: "\<not> le64 t (Finite 0) \<Longrightarrow> t \<noteq> NotANumber \<Longrightarrow> lt64 (Finite 0) t"
  by (cases t) simp_all

lemma fsub_zero_right: "canonical t \<Longrightarrow> fsub t (Finite 0) = t"
  by (simp add: fsub_def fadd_zero_right)

lemma fsub_canonical: "canonical (fsub a b)"
  by (simp add: fsub_def fadd_canonical)

lemma fill_level64_empty_level:
  "canonical tc \<Longrightarrow> canonical rem \<Longrightarrow> lt64 (Finite 0) rem \<Longrightarrow> ask_volume_1 z = 0
     \<Longrightarrow> fill_level64 (tc, rem) z = (tc, rem)"
  by (simp add: fill_level64_def fadd_zero_right fsub_zero_right)

lemma fill_level64_remaining_not_nan:
  "lt64 (Finite 0) rem \<Longrightarrow> snd (fill_level64 (tc, rem) l) \<noteq> NotANumber"
  by (cases rem) (simp_all add: fill_level64_def fsub_def Let_def)

lemma walk_levels64_skip_empty_level:
  "canonical tc \<Longrightarrow> canonical rem \<Longrightarrow> lt64 (Finite 0) rem \<Longrightarrow> ask_volume_1 z = 0
     \<Longrightarrow> walk_levels64 (pre @ z # post) (tc, rem) = walk_levels64 (pre @ post) (tc, rem)"
proof (induction pre arbitrary: tc rem)
  case Nil
  then show ?case by (simp add: fill_level64_empty_level lt64_not_le64)
next
  case (Cons l pre)
  obtain tc' rem' where step: "fill_level64 (tc, rem) l = (tc', rem')"
    by (cases "fill_level64 (tc, rem) l")
  show ?case
  proof (cases "le64 rem' (Finite 0)")
    case True
    with step show ?thesis by simp
  next
    case False
    from step have "tc' = fadd tc (fmul (if lt64 (Finite (ask_volume_1 l)) rem
        then Finite (ask_volume_1 l) else rem) (Finite (ask_price_1 l)))"
      and "rem' = fsub rem (if lt64 (Finite (ask_volume_1 l)) rem
        then Finite (ask_volume_1 l) else rem)"
      by (simp_all add: fill_level64_def Let_def)
    then have c: "canonical tc'" "canonical rem'"
      by (simp_all only: fadd_canonical fsub_canonical)
    from Cons.prems step have "rem' \<noteq> NotANumber"
      using fill_level64_remaining_not_nan [of rem tc l] by simp
    with False have "lt64 (Finite 0) rem'" by (rule not_le64_lt64)
    with c Cons.prems
    have "walk_levels64 (pre @ z # post) (tc', rem') = walk_levels64 (pre @ post) (tc', rem')"
      by (intro Cons.IH)
    with False step show ?thesis by simp
  qed
qed

lemma walk_to_end64_filled:
  "\<forall>l \<in> set ls. 0 \<le> ask_volume_1 l \<Longrightarrow> canonical tc
     \<Longrightarrow> walk_to_end64 ls (tc, Finite 0) = (tc, Finite 0)"
proof (induction ls)
  case Nil
  show ?case by (simp add: walk_to_end64_def)
next
  case (Cons l ls)
  then have "fill_level64 (tc, Finite 0) l = (tc, Finite 0)"
    by (simp add: fill_level64_def fsub_def fadd_zero_right)
  with Cons show ?case by (simp add: walk_to_end64_def)
qed

lemma walk_levels64_eq_walk_to_end64:
  "\<forall>l \<in> set ls. 0 \<le> ask_volume_1 l \<Longrightarrow> canonical tc \<Longrightarrow> is_double r \<Longrightarrow> 0 < r
     \<Longrightarrow> walk_levels64 ls (tc, Finite r) = walk_to_end64 ls (tc, Finite r)"
proof (induction ls arbitrary: tc r)
  case Nil
  show ?case by (simp add: walk_to_end64_def)
next
  case (Cons l ls)
  let ?v = "ask_volume_1 l"
  let ?q = "if ?v < r then ?v else r"
  let ?tc = "fadd tc (fmul (Finite ?q) (Finite (ask_price_1 l)))"
  from Cons.prems have v: "0 \<le> ?v" and rest: "\<forall>l \<in> set ls. 0 \<le> ask_volume_1 l" by simp_all
  from Cons.prems have r: "rnd r = r" "r < 2 ^ 1024"
    by (auto simp: is_double_def round64_def Let_def split: if_splits)
  from v Cons.prems have diff: "0 \<le> r - ?q" "r - ?q \<le> r" by simp_all
  then have "rnd (r - ?q) \<le> rnd r" by (intro rnd_mono)
  with r have upper: "rnd (r - ?q) < 2 ^ 1024" by simp
  from diff have lower: "0 \<le> rnd (r - ?q)" by (intro rnd_nonneg)
  have "- (2 ^ 1024) < (0::real)" by simp
  with upper lower have rem: "round64 (r - ?q) = Finite (rnd (r - ?q))"
    by (simp add: round64_def Let_def)
  then have step: "fill_level64 (tc, Finite r) l = (?tc, Finite (rnd (r - ?q)))"
    by (cases "?v < r") (simp_all add: fill_level64_def fsub_def Let_def)
  have ctc: "canonical ?tc" by (rule fadd_canonical)
  have dbl: "is_double (rnd (r - ?q))"
    using round64_canonical [of "r - ?q"] by (simp add: rem canonical_def is_double_def)
  have unfold: "walk_to_end64 (l # ls) (tc, Finite r) = walk_to_end64 ls (?tc, Finite (rnd (r - ?q)))"
    by (simp add: walk_to_end64_def step del: fadd.simps fmul.simps)
  show ?case
  proof (cases "rnd (r - ?q) \<le> 0")
    case True
    with lower have zero: "rnd (r - ?q) = 0" by simp
    from rest ctc have "walk_to_end64 ls (?tc, Finite 0) = (?tc, Finite 0)"
      by (rule walk_to_end64_filled)
    with zero show ?thesis
      by (simp add: unfold step del: fadd.simps fmul.simps)
  next
    case False
    then have "0 < rnd (r - ?q)" by simp
    with rest ctc dbl
    have "walk_levels64 ls (?tc, Finite (rnd (r - ?q)))
        = walk_to_end64 ls (?tc, Finite (rnd (r - ?q)))"
      by (intro Cons.IH)
    with False show ?thesis
      by (simp add: unfold step del: fadd.simps fmul.simps)
  qed
qed

lemma walk_levels64_stops:
  "pre \<noteq> [] \<Longrightarrow> le64 (snd (walk_levels64 pre s)) (Finite 0)
     \<Longrightarrow> walk_levels64 (pre @ post) s = walk_levels64 pre s"
proof (induction pre arbitrary: s)
  case Nil
  then show ?case by simp
next
  case (Cons l pre)
  show ?case
  proof (cases "le64 (snd (fill_level64 s l)) (Finite 0)")
    case True
    then show ?thesis by (simp add: Let_def)
  next
    case False
    show ?thesis
    proof (cases "pre = []")
      case True
      with False Cons.prems show ?thesis by (simp add: Let_def)
    next
      case nonempty: False
      with False Cons.prems Cons.IH [of "fill_level64 s l"] show ?thesis by (simp add: Let_def)
    qed
  qed
qed

text \<open>Rules for evaluating the float64 functions on numerals.\<close>

lemma expo_down_numeral:
  "expo_down (numeral k) m = (if m < 1 then expo_down (pred_numeral k) (2 * m) - 1 else 0)"
  by (simp add: numeral_eq_Suc)

lemmas eval64 = compute_slippage64_def fill_level64_def fsub_def round64_def rnd_def
  round_magnitude_def expo_def expo_down_numeral rne_def Let_def

lemma valid_snapshot_volumes:
  "valid_snapshot levels \<Longrightarrow> integer_lots levels x
     \<Longrightarrow> \<forall>l \<in> set levels. 0 \<le> ask_volume_1 l \<and> is_integer (ask_volume_1 l)"
  by (simp add: valid_snapshot_def integer_lots_def)

section \<open>Filled and unfilled orders\<close>




text \<open>
  C2, as the code has it. On a snapshot whose volumes and order size are whole numbers,
  the order size at most \<open>2 ^ 53\<close> and above the total volume, \<open>compute_slippage64\<close>
  returns \<^verbatim>\<open>np.nan\<close> and no number. On the book of 50 at 100.05 and 100 at 100.10 the
  total volume is 150, and the order size 200 gives \<^verbatim>\<open>np.nan\<close>.
\<close>

theorem compute_slippage64_unfilled:
  "(valid_snapshot levels \<and> integer_lots levels order_size \<and> total_volume levels < order_size
      \<longrightarrow> compute_slippage64 levels order_size mid_price = NotANumber
          \<and> (\<forall>v. compute_slippage64 levels order_size mid_price \<noteq> Finite v))
   \<and> total_volume [\<lparr>ask_price_1 = 7040392854975283 / 70368744177664, ask_volume_1 = 50\<rparr>,
                    \<lparr>ask_price_1 = 3521955646092083 / 35184372088832, ask_volume_1 = 100\<rparr>] = 150
   \<and> compute_slippage64
        [\<lparr>ask_price_1 = 7040392854975283 / 70368744177664, ask_volume_1 = 50\<rparr>,
         \<lparr>ask_price_1 = 3521955646092083 / 35184372088832, ask_volume_1 = 100\<rparr>] 200 mid_price
       = NotANumber"
proof -
  have "compute_slippage64 levels order_size mid_price = NotANumber"
    if valid: "valid_snapshot levels" and lots: "integer_lots levels order_size"
      and short: "total_volume levels < order_size"
  proof -
    from valid lots
    have vols: "\<forall>l \<in> set levels. 0 \<le> ask_volume_1 l \<and> is_integer (ask_volume_1 l)"
      by (rule valid_snapshot_volumes)
    from lots have size: "is_integer order_size" "order_size \<le> 2 ^ 53"
      by (simp_all add: integer_lots_def)
    from vols size short
    obtain tc' r' where "walk_levels64 levels (Finite 0, Finite order_size) = (tc', Finite r')"
      and "0 < r'"
      using walk_levels64_unfilled [of levels order_size "Finite 0"] by blast
    then show ?thesis by (simp add: compute_slippage64_def)
  qed
  moreover
  have "total_volume [\<lparr>ask_price_1 = 7040392854975283 / 70368744177664, ask_volume_1 = 50\<rparr>,
                    \<lparr>ask_price_1 = 3521955646092083 / 35184372088832, ask_volume_1 = 100\<rparr>] = 150"
    by (simp add: total_volume_def)
  moreover
  have "compute_slippage64
        [\<lparr>ask_price_1 = 7040392854975283 / 70368744177664, ask_volume_1 = 50\<rparr>,
         \<lparr>ask_price_1 = 3521955646092083 / 35184372088832, ask_volume_1 = 100\<rparr>] 200 mid_price
       = NotANumber"
    by (simp add: eval64)
  ultimately show ?thesis by simp
qed

theorem compute_slippage64_unfilled_witness:
  "valid_snapshot [\<lparr>ask_price_1 = 10, ask_volume_1 = 3\<rparr>, \<lparr>ask_price_1 = 11, ask_volume_1 = 0\<rparr>,
                   \<lparr>ask_price_1 = 12, ask_volume_1 = 4\<rparr>]
   \<and> integer_lots [\<lparr>ask_price_1 = 10, ask_volume_1 = 3\<rparr>, \<lparr>ask_price_1 = 11, ask_volume_1 = 0\<rparr>,
                    \<lparr>ask_price_1 = 12, ask_volume_1 = 4\<rparr>] 8
   \<and> total_volume [\<lparr>ask_price_1 = 10, ask_volume_1 = 3\<rparr>, \<lparr>ask_price_1 = 11, ask_volume_1 = 0\<rparr>,
                    \<lparr>ask_price_1 = 12, ask_volume_1 = 4\<rparr>] < 8
   \<and> compute_slippage64 [\<lparr>ask_price_1 = 10, ask_volume_1 = 3\<rparr>, \<lparr>ask_price_1 = 11, ask_volume_1 = 0\<rparr>,
                         \<lparr>ask_price_1 = 12, ask_volume_1 = 4\<rparr>] 8 9 = NotANumber
   \<and> compute_slippage64 [\<lparr>ask_price_1 = 10, ask_volume_1 = 3\<rparr>, \<lparr>ask_price_1 = 11, ask_volume_1 = 0\<rparr>,
                         \<lparr>ask_price_1 = 12, ask_volume_1 = 4\<rparr>] 8 9 \<noteq> Finite 0"
proof -
  let ?book = "[\<lparr>ask_price_1 = 10, ask_volume_1 = 3\<rparr>, \<lparr>ask_price_1 = 11, ask_volume_1 = 0\<rparr>,
                \<lparr>ask_price_1 = 12, ask_volume_1 = 4\<rparr>]"
  have h1: "valid_snapshot ?book" by (simp add: valid_snapshot_def)
  have h2: "integer_lots ?book 8" by (simp add: integer_lots_def is_integer_def)
  have h3: "total_volume ?book < 8" by (simp add: total_volume_def)
  from compute_slippage64_unfilled [of ?book 8 9] h1 h2 h3
  show ?thesis by blast
qed

text \<open>
  C2 as stated covers every volume. The volumes 0.05 and 0.18 add up to less than the
  order size 0.23, as real numbers; \<open>0.23 - 0.05\<close> rounds to the float64 written 0.18,
  the second level fills the rest, and the code returns a number.
\<close>

theorem compute_slippage64_unfillable_returns_number:
  "rnd (5 / 100) = 3602879701896397 / 72057594037927936
   \<and> rnd (18 / 100) = 3242591731706757 / 18014398509481984
   \<and> rnd (23 / 100) = 8286623314361713 / 36028797018963968
   \<and> valid_snapshot
        [\<lparr>ask_price_1 = 1, ask_volume_1 = 3602879701896397 / 72057594037927936\<rparr>,
         \<lparr>ask_price_1 = 2, ask_volume_1 = 3242591731706757 / 18014398509481984\<rparr>]
   \<and> (0::real) < 8286623314361713 / 36028797018963968
   \<and> total_volume
        [\<lparr>ask_price_1 = 1, ask_volume_1 = 3602879701896397 / 72057594037927936\<rparr>,
         \<lparr>ask_price_1 = 2, ask_volume_1 = 3242591731706757 / 18014398509481984\<rparr>]
       < 8286623314361713 / 36028797018963968
   \<and> compute_slippage64
        [\<lparr>ask_price_1 = 1, ask_volume_1 = 3602879701896397 / 72057594037927936\<rparr>,
         \<lparr>ask_price_1 = 2, ask_volume_1 = 3242591731706757 / 18014398509481984\<rparr>]
        (8286623314361713 / 36028797018963968) 0
       = Finite (1003519482185817 / 562949953421312)"
  by (simp add: eval64 valid_snapshot_def total_volume_def)

section \<open>Monotonicity\<close>

text \<open>
  C4, as the code has it. On a snapshot whose prices ascend, whose prices and volumes
  are whole numbers and whose whole value is at most \<open>2 ^ 53\<close>, for whole order sizes
  \<open>0 < x1 \<le> x2\<close> up to the total volume, the value returned at \<open>x1\<close> is \<^verbatim>\<open><=\<close> the
  value returned at \<open>x2\<close>: the cost is summed without rounding, and the two roundings
  that remain are monotone.
\<close>

theorem compute_slippage64_monotone:
  "valid_snapshot levels \<Longrightarrow> sorted (map ask_price_1 levels) \<Longrightarrow> integer_book levels
     \<Longrightarrow> book_value levels \<le> 2 ^ 53 \<Longrightarrow> is_integer x1 \<Longrightarrow> is_integer x2
     \<Longrightarrow> 0 < x1 \<Longrightarrow> x1 \<le> x2 \<Longrightarrow> x2 \<le> total_volume levels
     \<Longrightarrow> le64 (compute_slippage64 levels x1 mid_price) (compute_slippage64 levels x2 mid_price)"
proof -
  assume valid: "valid_snapshot levels" and srt: "sorted (map ask_price_1 levels)"
    and ints: "integer_book levels" and worth: "book_value levels \<le> 2 ^ 53"
    and int1: "is_integer x1" and int2: "is_integer x2"
    and x1: "0 < x1" and le: "x1 \<le> x2" and x2: "x2 \<le> total_volume levels"
  from valid ints
  have all: "\<forall>l \<in> set levels. 0 \<le> ask_volume_1 l \<and> is_integer (ask_volume_1 l)
        \<and> 0 \<le> ask_price_1 l \<and> is_integer (ask_price_1 l)"
    by (auto simp: valid_snapshot_def integer_book_def intro: less_imp_le)
  then have vols: "\<forall>l \<in> set levels. 0 \<le> ask_volume_1 l"
    and nonneg: "\<forall>l \<in> set levels. 0 \<le> ask_volume_1 l \<and> 0 \<le> ask_price_1 l" by simp_all
  from valid ints have "\<forall>l \<in> set levels. 0 \<le> ask_volume_1 l \<and> 1 \<le> ask_price_1 l"
    by (auto simp: valid_snapshot_def integer_book_def intro: is_integer_pos)
  then have "total_volume levels \<le> book_value levels" by (rule total_volume_le_book_value)
  with x2 worth have big2: "x2 \<le> 2 ^ 53" by simp
  with le have big1: "x1 \<le> 2 ^ 53" by simp
  from x1 le have pos2: "0 < x2" by simp
  from le x2 have enough1: "x1 \<le> total_volume levels" by simp
  have result: "compute_slippage64 levels x mid_price
      = round64 (rnd (brute_force_cost levels x / x) - mid_price)"
    if int: "is_integer x" and pos: "0 < x" and big: "x \<le> 2 ^ 53"
      and enough: "x \<le> total_volume levels" for x
  proof -
    from all int pos big enough worth
    have "walk_levels64 levels (Finite 0, Finite x)
        = (Finite (0 + brute_force_cost levels x), Finite 0)"
      by (intro walk_levels64_exact) simp_all
    then have cs: "compute_slippage64 levels x mid_price
        = fsub (round64 (brute_force_cost levels x / x)) (Finite mid_price)"
      using pos by (simp add: compute_slippage64_def)
    from int pos have one: "1 \<le> x" by (rule is_integer_pos)
    from nonneg pos have c0: "0 \<le> brute_force_cost levels x"
      by (intro brute_force_cost_nonneg) simp_all
    from nonneg pos have "brute_force_cost levels x \<le> book_value levels"
      by (intro brute_force_cost_le_book_value) simp_all
    with worth have c1: "brute_force_cost levels x \<le> 2 ^ 53" by simp
    from c0 one have "brute_force_cost levels x / x \<le> brute_force_cost levels x / 1"
      by (intro divide_left_mono) simp_all
    with c1 have "brute_force_cost levels x / x \<le> 2 ^ 53" by simp
    moreover from c0 pos have "0 \<le> brute_force_cost levels x / x" by simp
    ultimately have "\<bar>brute_force_cost levels x / x\<bar> \<le> 2 ^ 53" by simp
    then have "round64 (brute_force_cost levels x / x)
        = Finite (rnd (brute_force_cost levels x / x))"
      by (rule round64_small)
    with cs show ?thesis by (simp add: fsub_def)
  qed
  from vols srt x1 le x2
  have "brute_force_cost levels x1 * x2 \<le> brute_force_cost levels x2 * x1"
    by (rule average_cost_mono)
  with x1 pos2 have "brute_force_cost levels x1 / x1 \<le> brute_force_cost levels x2 / x2"
    by (simp add: field_simps)
  then have "rnd (brute_force_cost levels x1 / x1) \<le> rnd (brute_force_cost levels x2 / x2)"
    by (rule rnd_mono)
  then have "rnd (brute_force_cost levels x1 / x1) - mid_price
      \<le> rnd (brute_force_cost levels x2 / x2) - mid_price" by simp
  then have "le64 (round64 (rnd (brute_force_cost levels x1 / x1) - mid_price))
      (round64 (rnd (brute_force_cost levels x2 / x2) - mid_price))"
    by (rule round64_mono)
  with result [OF int1 x1 big1 enough1] result [OF int2 pos2 big2 x2]
  show ?thesis by simp
qed

theorem compute_slippage64_monotone_witness:
  "valid_snapshot [\<lparr>ask_price_1 = 1000500, ask_volume_1 = 50\<rparr>,
                   \<lparr>ask_price_1 = 1001000, ask_volume_1 = 100\<rparr>]
   \<and> sorted (map ask_price_1 [\<lparr>ask_price_1 = 1000500, ask_volume_1 = 50\<rparr>,
                               \<lparr>ask_price_1 = 1001000, ask_volume_1 = 100\<rparr>])
   \<and> integer_book [\<lparr>ask_price_1 = 1000500, ask_volume_1 = 50\<rparr>,
                    \<lparr>ask_price_1 = 1001000, ask_volume_1 = 100\<rparr>]
   \<and> book_value [\<lparr>ask_price_1 = 1000500, ask_volume_1 = 50\<rparr>,
                  \<lparr>ask_price_1 = 1001000, ask_volume_1 = 100\<rparr>] \<le> 2 ^ 53
   \<and> is_integer 40 \<and> is_integer 120 \<and> (0::real) < 40 \<and> (40::real) \<le> 120
   \<and> 120 \<le> total_volume [\<lparr>ask_price_1 = 1000500, ask_volume_1 = 50\<rparr>,
                           \<lparr>ask_price_1 = 1001000, ask_volume_1 = 100\<rparr>]
   \<and> le64 (compute_slippage64 [\<lparr>ask_price_1 = 1000500, ask_volume_1 = 50\<rparr>,
                               \<lparr>ask_price_1 = 1001000, ask_volume_1 = 100\<rparr>] 40 1000000)
           (compute_slippage64 [\<lparr>ask_price_1 = 1000500, ask_volume_1 = 50\<rparr>,
                               \<lparr>ask_price_1 = 1001000, ask_volume_1 = 100\<rparr>] 120 1000000)
   \<and> compute_slippage64 [\<lparr>ask_price_1 = 1000500, ask_volume_1 = 50\<rparr>,
                         \<lparr>ask_price_1 = 1001000, ask_volume_1 = 100\<rparr>] 40 1000000 = Finite 500
   \<and> compute_slippage64 [\<lparr>ask_price_1 = 1000500, ask_volume_1 = 50\<rparr>,
                         \<lparr>ask_price_1 = 1001000, ask_volume_1 = 100\<rparr>] 120 1000000
       = Finite (6800364885333 / 8589934592)"
proof -
  let ?book = "[\<lparr>ask_price_1 = 1000500, ask_volume_1 = 50\<rparr>,
                \<lparr>ask_price_1 = 1001000, ask_volume_1 = 100\<rparr>]"
  have h1: "valid_snapshot ?book" by (simp add: valid_snapshot_def)
  have h2: "sorted (map ask_price_1 ?book)" by simp
  have h3: "integer_book ?book" by (simp add: integer_book_def is_integer_def)
  have h4: "book_value ?book \<le> 2 ^ 53" by (simp add: book_value_def)
  have h5: "is_integer 40" and h6: "is_integer 120" by (simp_all add: is_integer_def)
  have h7: "(0::real) < 40" and h8: "(40::real) \<le> 120" by simp_all
  have h9: "120 \<le> total_volume ?book" by (simp add: total_volume_def)
  have v1: "compute_slippage64 ?book 40 1000000 = Finite 500" by (simp add: eval64)
  have v2: "compute_slippage64 ?book 120 1000000 = Finite (6800364885333 / 8589934592)"
    by (simp add: eval64)
  from compute_slippage64_monotone [OF h1 h2 h3 h4 h5 h6 h7 h8 h9, of 1000000]
    h1 h2 h3 h4 h5 h6 h7 h8 h9 v1 v2
  show ?thesis by blast
qed

text \<open>
  C4 as stated covers every price. On the book of 50 at 100.05 and 100 at 100.10 with
  mid-price 100, both order sizes 12 and 13 are filled at the first level; the
  products and quotients round, and the value returned at 13 is below the one at 12.
\<close>

theorem compute_slippage64_decreases:
  "rnd (10005 / 100) = 7040392854975283 / 70368744177664
   \<and> rnd (10010 / 100) = 3521955646092083 / 35184372088832
   \<and> valid_snapshot [\<lparr>ask_price_1 = 7040392854975283 / 70368744177664, ask_volume_1 = 50\<rparr>,
                     \<lparr>ask_price_1 = 3521955646092083 / 35184372088832, ask_volume_1 = 100\<rparr>]
   \<and> sorted (map ask_price_1
        [\<lparr>ask_price_1 = 7040392854975283 / 70368744177664, ask_volume_1 = 50\<rparr>,
         \<lparr>ask_price_1 = 3521955646092083 / 35184372088832, ask_volume_1 = 100\<rparr>])
   \<and> (0::real) < 12 \<and> (12::real) \<le> 13
   \<and> 13 \<le> total_volume
        [\<lparr>ask_price_1 = 7040392854975283 / 70368744177664, ask_volume_1 = 50\<rparr>,
         \<lparr>ask_price_1 = 3521955646092083 / 35184372088832, ask_volume_1 = 100\<rparr>]
   \<and> compute_slippage64
        [\<lparr>ask_price_1 = 7040392854975283 / 70368744177664, ask_volume_1 = 50\<rparr>,
         \<lparr>ask_price_1 = 3521955646092083 / 35184372088832, ask_volume_1 = 100\<rparr>] 12 100
       = Finite (3518437208883 / 70368744177664)
   \<and> compute_slippage64
        [\<lparr>ask_price_1 = 7040392854975283 / 70368744177664, ask_volume_1 = 50\<rparr>,
         \<lparr>ask_price_1 = 3521955646092083 / 35184372088832, ask_volume_1 = 100\<rparr>] 13 100
       = Finite (1759218604441 / 35184372088832)
   \<and> (1759218604441 / 35184372088832 :: real) < 3518437208883 / 70368744177664"
  by (simp add: eval64 valid_snapshot_def total_volume_def)

section \<open>The break\<close>

text \<open>
  C5. On a snapshot and for an order size above zero, the loop with its \<^verbatim>\<open>break\<close>
  returns what the same body folded to the end of the sequence returns. And the loop
  stops: once it has run over a non-empty front part \<open>pre\<close> of the levels and
  \<open>remaining \<le> 0\<close>, its state and the result are those of \<open>pre\<close> alone, whatever
  levels \<open>post\<close> follow.
\<close>

theorem compute_slippage_break_is_optimization:
  "(valid_snapshot order_book \<and> 0 < x
      \<longrightarrow> compute_slippage order_book x mid_price
            = compute_slippage_no_break order_book x mid_price)
   \<and> (pre \<noteq> [] \<and> snd (walk_levels pre (0, x)) \<le> 0
      \<longrightarrow> walk_levels (pre @ post) (0, x) = walk_levels pre (0, x)
          \<and> compute_slippage (pre @ post) x mid_price = compute_slippage pre x mid_price)"
proof -
  have "compute_slippage order_book x mid_price
      = compute_slippage_no_break order_book x mid_price" if "valid_snapshot order_book"
  proof -
    from that have "\<forall>l \<in> set order_book. 0 \<le> ask_volume_1 l"
      by (simp add: valid_snapshot_def)
    then have "walk_levels order_book (0, x) = walk_to_end order_book (0, x)"
      by (rule walk_levels_eq_walk_to_end)
    then show ?thesis
      by (simp add: compute_slippage_def compute_slippage_no_break_def)
  qed
  moreover have "walk_levels (pre @ post) (0, x) = walk_levels pre (0, x)
      \<and> compute_slippage (pre @ post) x mid_price = compute_slippage pre x mid_price"
    if "pre \<noteq> []" and "snd (walk_levels pre (0, x)) \<le> 0"
  proof -
    from that have "walk_levels (pre @ post) (0, x) = walk_levels pre (0, x)"
      by (rule walk_levels_stops)
    then show ?thesis by (simp add: compute_slippage_def)
  qed
  ultimately show ?thesis by blast
qed

theorem compute_slippage_break_is_optimization_witness:
  "valid_snapshot [\<lparr>ask_price_1 = 10, ask_volume_1 = 3\<rparr>, \<lparr>ask_price_1 = 12, ask_volume_1 = 4\<rparr>]
   \<and> (0::real) < 2
   \<and> compute_slippage [\<lparr>ask_price_1 = 10, ask_volume_1 = 3\<rparr>,
                       \<lparr>ask_price_1 = 12, ask_volume_1 = 4\<rparr>] 2 9
       = compute_slippage_no_break [\<lparr>ask_price_1 = 10, ask_volume_1 = 3\<rparr>,
                                    \<lparr>ask_price_1 = 12, ask_volume_1 = 4\<rparr>] 2 9
   \<and> [\<lparr>ask_price_1 = 10, ask_volume_1 = 3\<rparr>] \<noteq> []
   \<and> snd (walk_levels [\<lparr>ask_price_1 = 10, ask_volume_1 = 3\<rparr>] (0, 2)) \<le> 0
   \<and> walk_levels ([\<lparr>ask_price_1 = 10, ask_volume_1 = 3\<rparr>] @ [\<lparr>ask_price_1 = 12, ask_volume_1 = - 4\<rparr>])
        (0, 2) = walk_levels [\<lparr>ask_price_1 = 10, ask_volume_1 = 3\<rparr>] (0, 2)
   \<and> compute_slippage ([\<lparr>ask_price_1 = 10, ask_volume_1 = 3\<rparr>]
                        @ [\<lparr>ask_price_1 = 12, ask_volume_1 = - 4\<rparr>]) 2 9
       = compute_slippage [\<lparr>ask_price_1 = 10, ask_volume_1 = 3\<rparr>] 2 9"
proof -
  let ?book = "[\<lparr>ask_price_1 = 10, ask_volume_1 = 3\<rparr>, \<lparr>ask_price_1 = 12, ask_volume_1 = 4\<rparr>]"
  let ?pre = "[\<lparr>ask_price_1 = 10, ask_volume_1 = 3\<rparr>]"
  let ?post = "[\<lparr>ask_price_1 = 12, ask_volume_1 = - 4\<rparr>]"
  have h1: "valid_snapshot ?book" by (simp add: valid_snapshot_def)
  have h2: "(0::real) < 2" by simp
  have h3: "?pre \<noteq> []" by simp
  have h4: "snd (walk_levels ?pre (0, 2)) \<le> 0" by (simp add: fill_level_def)
  from compute_slippage_break_is_optimization [of ?book 2 9 ?pre ?post] h1 h2 h3 h4
  show ?thesis by blast
qed

text \<open>
  The same in float64, for an order size that is a float64: with the volumes not
  negative \<open>remaining\<close> never falls below zero, the loop leaves at \<open>remaining = 0\<close>
  exactly, and a level after that adds \<open>0 * price\<close>.
\<close>

lemma compute_slippage64_break_is_optimization:
  "valid_snapshot order_book \<Longrightarrow> 0 < x \<Longrightarrow> is_double x
     \<Longrightarrow> compute_slippage64 order_book x mid_price
         = compute_slippage64_no_break order_book x mid_price"
proof -
  assume valid: "valid_snapshot order_book" and pos: "0 < x" and dbl: "is_double x"
  from valid have "\<forall>l \<in> set order_book. 0 \<le> ask_volume_1 l"
    by (simp add: valid_snapshot_def)
  moreover have "canonical (Finite 0)" by (simp add: canonical_def)
  ultimately have "walk_levels64 order_book (Finite 0, Finite x)
      = walk_to_end64 order_book (Finite 0, Finite x)"
    using dbl pos by (rule walk_levels64_eq_walk_to_end64)
  then show ?thesis by (simp add: compute_slippage64_def compute_slippage64_no_break_def)
qed

section \<open>Levels without volume\<close>

text \<open>
  C7. For an order size above zero, a level \<open>z\<close> of volume zero, of any price, put in at
  any position \<open>n\<close> of any sequence of levels leaves the result of \<open>compute_slippage\<close>
  as it is.
\<close>

theorem compute_slippage_skips_empty_level:
  "0 < x \<Longrightarrow> ask_volume_1 z = 0
     \<Longrightarrow> compute_slippage (take n order_book @ z # drop n order_book) x mid_price
         = compute_slippage order_book x mid_price"
proof -
  assume "0 < x" and "ask_volume_1 z = 0"
  then have "walk_levels (take n order_book @ z # drop n order_book) (0, x)
      = walk_levels (take n order_book @ drop n order_book) (0, x)"
    by (rule walk_levels_skip_empty_level)
  then show ?thesis by (simp add: compute_slippage_def)
qed

theorem compute_slippage_skips_empty_level_witness:
  "(0::real) < 60 \<and> ask_volume_1 \<lparr>ask_price_1 = 100.07, ask_volume_1 = 0\<rparr> = 0
   \<and> compute_slippage
        (take 1 [\<lparr>ask_price_1 = 100.05, ask_volume_1 = 50\<rparr>,
                 \<lparr>ask_price_1 = 100.10, ask_volume_1 = 100\<rparr>]
         @ \<lparr>ask_price_1 = 100.07, ask_volume_1 = 0\<rparr>
         # drop 1 [\<lparr>ask_price_1 = 100.05, ask_volume_1 = 50\<rparr>,
                   \<lparr>ask_price_1 = 100.10, ask_volume_1 = 100\<rparr>]) 60 100
       = compute_slippage [\<lparr>ask_price_1 = 100.05, ask_volume_1 = 50\<rparr>,
                           \<lparr>ask_price_1 = 100.10, ask_volume_1 = 100\<rparr>] 60 100"
proof -
  have h1: "(0::real) < 60" by simp
  have h2: "ask_volume_1 \<lparr>ask_price_1 = 100.07, ask_volume_1 = 0\<rparr> = 0" by simp
  from compute_slippage_skips_empty_level [OF h1 h2] h1 h2
  show ?thesis by blast
qed

text \<open>The same in float64: \<open>min remaining 0 = 0\<close> leaves both numbers as they are.\<close>

lemma compute_slippage64_skips_empty_level:
  "0 < x \<Longrightarrow> is_double x \<Longrightarrow> ask_volume_1 z = 0
     \<Longrightarrow> compute_slippage64 (take n order_book @ z # drop n order_book) x mid_price
         = compute_slippage64 order_book x mid_price"
proof -
  assume "0 < x" and "is_double x" and "ask_volume_1 z = 0"
  then have "walk_levels64 (take n order_book @ z # drop n order_book) (Finite 0, Finite x)
      = walk_levels64 (take n order_book @ drop n order_book) (Finite 0, Finite x)"
    by (intro walk_levels64_skip_empty_level) (simp_all add: canonical_def is_double_def)
  then show ?thesis by (simp add: compute_slippage64_def)
qed

section \<open>Inputs outside the contract\<close>

text \<open>
  C9, as the code has it. For a negative order size and a non-empty snapshot, the first
  level takes the whole order, \<open>min x volume = x\<close>, and the loop leaves with
  \<open>remaining = 0\<close>. The result is the float64 value of \<open>(x * price) / x - mid_price\<close>,
  never \<^verbatim>\<open>np.nan\<close> and not an error. It is the float64 value of \<open>price - mid_price\<close>
  when the product \<open>x * price\<close> is a float64.
\<close>

theorem compute_slippage64_negative_size:
  "valid_snapshot order_book \<Longrightarrow> order_book \<noteq> [] \<Longrightarrow> x < 0
     \<Longrightarrow> walk_levels64 order_book (Finite 0, Finite x)
           = (fadd (Finite 0) (fmul (Finite x) (Finite (ask_price_1 (hd order_book)))), Finite 0)
         \<and> compute_slippage64 order_book x mid_price
           = fsub (fdiv (fadd (Finite 0) (fmul (Finite x) (Finite (ask_price_1 (hd order_book)))))
                    (Finite x)) (Finite mid_price)
         \<and> compute_slippage64 order_book x mid_price \<noteq> NotANumber
         \<and> (is_double (ask_price_1 (hd order_book)) \<and> is_double (x * ask_price_1 (hd order_book))
              \<longrightarrow> compute_slippage64 order_book x mid_price
                    = fsub (Finite (ask_price_1 (hd order_book))) (Finite mid_price))"
proof -
  assume valid: "valid_snapshot order_book" and nonempty: "order_book \<noteq> []" and neg: "x < 0"
  from nonempty obtain l ls where book: "order_book = l # ls" by (cases order_book) auto
  let ?p = "ask_price_1 l"
  let ?tc = "fadd (Finite 0) (fmul (Finite x) (Finite ?p))"
  from book valid have "0 \<le> ask_volume_1 l" by (simp add: valid_snapshot_def)
  with neg have walk: "walk_levels64 (l # ls) (Finite 0, Finite x) = (?tc, Finite 0)"
    by (simp add: fill_level64_def fsub_def Let_def del: fadd.simps fmul.simps)
       (simp add: round64_def)
  with neg have result: "compute_slippage64 (l # ls) x mid_price
      = fsub (fdiv ?tc (Finite x)) (Finite mid_price)"
    by (simp add: compute_slippage64_def del: fadd.simps fmul.simps)
  have "fmul (Finite x) (Finite ?p) \<noteq> NotANumber" by simp
  then have "?tc \<noteq> NotANumber" by (rule fadd_finite_not_nan)
  with neg have "fdiv ?tc (Finite x) \<noteq> NotANumber" by (intro fdiv_finite_not_nan) simp_all
  then have not_nan: "fsub (fdiv ?tc (Finite x)) (Finite mid_price) \<noteq> NotANumber"
    by (rule fsub_not_nan)
  have exact: "fsub (fdiv ?tc (Finite x)) (Finite mid_price) = fsub (Finite ?p) (Finite mid_price)"
    if "is_double ?p" and "is_double (x * ?p)"
  proof -
    from that have "?tc = Finite (x * ?p)" by (simp add: is_double_def)
    with neg that show ?thesis by (simp add: is_double_def)
  qed
  from walk result not_nan exact book show ?thesis
    by (simp del: fadd.simps fmul.simps walk_levels64.simps)
qed

theorem compute_slippage64_negative_size_witness:
  "valid_snapshot [\<lparr>ask_price_1 = 7040392854975283 / 70368744177664, ask_volume_1 = 50\<rparr>,
                   \<lparr>ask_price_1 = 3521955646092083 / 35184372088832, ask_volume_1 = 100\<rparr>]
   \<and> [\<lparr>ask_price_1 = 7040392854975283 / 70368744177664, ask_volume_1 = 50\<rparr>,
       \<lparr>ask_price_1 = 3521955646092083 / 35184372088832, ask_volume_1 = 100\<rparr>] \<noteq> []
   \<and> (- 8 :: real) < 0
   \<and> is_double (7040392854975283 / 70368744177664)
   \<and> is_double (- 8 * (7040392854975283 / 70368744177664))
   \<and> compute_slippage64
        [\<lparr>ask_price_1 = 7040392854975283 / 70368744177664, ask_volume_1 = 50\<rparr>,
         \<lparr>ask_price_1 = 3521955646092083 / 35184372088832, ask_volume_1 = 100\<rparr>] (- 8) 100
       = fsub (Finite (7040392854975283 / 70368744177664)) (Finite 100)
   \<and> compute_slippage64
        [\<lparr>ask_price_1 = 7040392854975283 / 70368744177664, ask_volume_1 = 50\<rparr>,
         \<lparr>ask_price_1 = 3521955646092083 / 35184372088832, ask_volume_1 = 100\<rparr>] (- 8) 100
       \<noteq> NotANumber"
proof -
  let ?book = "[\<lparr>ask_price_1 = 7040392854975283 / 70368744177664, ask_volume_1 = 50\<rparr>,
                \<lparr>ask_price_1 = 3521955646092083 / 35184372088832, ask_volume_1 = 100\<rparr>]"
  have h1: "valid_snapshot ?book" by (simp add: valid_snapshot_def)
  have h2: "?book \<noteq> []" by simp
  have h3: "(- 8 :: real) < 0" by simp
  have h4: "is_double (7040392854975283 / 70368744177664)" by (simp add: is_double_def eval64)
  have h5: "is_double (- 8 * (7040392854975283 / 70368744177664))"
    by (simp add: is_double_def eval64)
  have first: "ask_price_1 (hd ?book) = 7040392854975283 / 70368744177664" by simp
  note t = compute_slippage64_negative_size [OF h1 h2 h3, of 100, unfolded first]
  from t h4 h5
  have "compute_slippage64 ?book (- 8) 100
      = fsub (Finite (7040392854975283 / 70368744177664)) (Finite 100)" by blast
  moreover from t have "compute_slippage64 ?book (- 8) 100 \<noteq> NotANumber" by blast
  ultimately show ?thesis using h1 h2 h3 h4 h5 by blast
qed

text \<open>
  C9 as stated gives the result as exactly the first price minus the mid-price. At the
  order size \<open>- 13\<close> on the book of 50 at 100.05 the product rounds, and the result
  differs from the float64 value of \<open>100.05 - 100\<close>.
\<close>

theorem compute_slippage64_negative_size_inexact:
  "valid_snapshot [\<lparr>ask_price_1 = 7040392854975283 / 70368744177664, ask_volume_1 = 50\<rparr>,
                   \<lparr>ask_price_1 = 3521955646092083 / 35184372088832, ask_volume_1 = 100\<rparr>]
   \<and> (- 13 :: real) < 0
   \<and> compute_slippage64
        [\<lparr>ask_price_1 = 7040392854975283 / 70368744177664, ask_volume_1 = 50\<rparr>,
         \<lparr>ask_price_1 = 3521955646092083 / 35184372088832, ask_volume_1 = 100\<rparr>] (- 13) 100
       = Finite (1759218604441 / 35184372088832)
   \<and> fsub (Finite (7040392854975283 / 70368744177664)) (Finite 100)
       = Finite (3518437208883 / 70368744177664)
   \<and> (1759218604441 / 35184372088832 :: real) \<noteq> 3518437208883 / 70368744177664"
  by (simp add: eval64 valid_snapshot_def)

text \<open>
  C10. On an empty sequence of levels the loop body never runs: the state stays
  \<open>(0, x)\<close>, and for an order size above zero the result is \<^verbatim>\<open>np.nan\<close>, not an error.
\<close>

theorem compute_slippage_empty_book:
  "0 < x \<Longrightarrow> walk_levels [] (0, x) = (0, x) \<and> compute_slippage [] x mid_price = Inr NaN"
  by (simp add: compute_slippage_def)

theorem compute_slippage_empty_book_witness:
  "(0::real) < 10 \<and> walk_levels [] (0, 10) = (0, 10) \<and> compute_slippage [] 10 100 = Inr NaN"
  using compute_slippage_empty_book [of 10 100] by simp

text \<open>The same in float64.\<close>

lemma compute_slippage64_empty_book: "0 < x \<Longrightarrow> compute_slippage64 [] x mid_price = NotANumber"
  by (simp add: compute_slippage64_def)

section \<open>The scenario of order size 120\<close>

text \<open>
  C6, as the code has it. On the book of 50 at 100.05 and 100 at 100.10, with mid-price
  100 and order size 120, the loop fills 50 at 100.05 and 70 at 100.10 and nothing
  remains; the result is \<open>(50 * 100.05 + 70 * 100.10) / 120 - 100\<close>, which is
  \<open>19 / 240\<close>, about 0.0792.
\<close>

theorem compute_slippage_scenario_120:
  "walk_levels [\<lparr>ask_price_1 = 100.05, ask_volume_1 = 50\<rparr>,
                \<lparr>ask_price_1 = 100.10, ask_volume_1 = 100\<rparr>] (0, 120)
     = (50 * 100.05 + 70 * 100.10, 0)
   \<and> compute_slippage [\<lparr>ask_price_1 = 100.05, ask_volume_1 = 50\<rparr>,
                       \<lparr>ask_price_1 = 100.10, ask_volume_1 = 100\<rparr>] 120 100
     = Inr (Slippage ((50 * 100.05 + 70 * 100.10) / 120 - 100))
   \<and> (50 * 100.05 + 70 * 100.10) / 120 - 100 = (19 / 240 :: real)
   \<and> \<bar>19 / 240 - (0.0792 :: real)\<bar> < 0.0001"
  by (simp add: compute_slippage_def fill_level_def)

text \<open>
  C6 as stated gives the slippage as about 0.0808. The result \<open>19 / 240\<close> is further
  than 0.001 from that figure.
\<close>

theorem compute_slippage_scenario_120_not_0808:
  "compute_slippage [\<lparr>ask_price_1 = 100.05, ask_volume_1 = 50\<rparr>,
                     \<lparr>ask_price_1 = 100.10, ask_volume_1 = 100\<rparr>] 120 100
     = Inr (Slippage (19 / 240))
   \<and> \<not> \<bar>19 / 240 - (0.0808 :: real)\<bar> < 0.001"
  by (simp add: compute_slippage_def fill_level_def)

text \<open>
  In float64, with the prices the float64 numbers written 100.05 and 100.10, the result
  is within \<open>1 / 10 ^ 14\<close> of \<open>19 / 240\<close>.
\<close>

lemma compute_slippage64_scenario_120:
  "compute_slippage64
     [\<lparr>ask_price_1 = 7040392854975283 / 70368744177664, ask_volume_1 = 50\<rparr>,
      \<lparr>ask_price_1 = 3521955646092083 / 35184372088832, ask_volume_1 = 100\<rparr>] 120 100
     = Finite (5570858914065 / 70368744177664)
   \<and> \<bar>5570858914065 / 70368744177664 - (19 / 240 :: real)\<bar> < 1 / 10 ^ 14"
  by (simp add: eval64)

section \<open>Too few samples for the fit\<close>

text \<open>
  C3, as the code has it. When fewer than three sizes keep a slippage that is not
  \<^verbatim>\<open>nan\<close>, \<open>analyze_slippage\<close> raises nothing: it prints its message and returns,
  whatever the solver would do, and no fit is reported.
\<close>

theorem analyze_slippage_too_few_samples:
  "fit_data df = Inr (X_fit, Y_fit) \<Longrightarrow> length Y_fit < 3
     \<Longrightarrow> analyze_slippage curve_fit df = Inr NotEnoughData"
  by (simp add: analyze_slippage_def)

theorem analyze_slippage_too_few_samples_witness:
  "fit_data [\<lparr>ask_price_1 = 100, ask_volume_1 = 25, bid_price_1 = 99\<rparr>] = Inr ([10, 20], [1 / 2, 1 / 2])
   \<and> length [1 / 2, 1 / 2 :: real] < 3
   \<and> analyze_slippage never_converges
        [\<lparr>ask_price_1 = 100, ask_volume_1 = 25, bid_price_1 = 99\<rparr>] = Inr NotEnoughData"
proof -
  have h1: "fit_data [\<lparr>ask_price_1 = 100, ask_volume_1 = 25, bid_price_1 = 99\<rparr>]
      = Inr ([10, 20], [1 / 2, 1 / 2])"
    by (simp add: fit_data_def X_grid_eval compute_slippage_def fill_level_def)
  have h2: "length [1 / 2, 1 / 2 :: real] < 3" by simp
  from analyze_slippage_too_few_samples [OF h1 h2] h1 h2
  show ?thesis by blast
qed

text \<open>
  C3 as stated asks for a failure that reaches the caller. On a frame of one row with
  volume 15 only the size 10 is filled; with a solver that would fail on every call,
  \<open>analyze_slippage\<close> still returns without any error.
\<close>

theorem analyze_slippage_one_sample_returns:
  "fit_data [\<lparr>ask_price_1 = 100, ask_volume_1 = 15, bid_price_1 = 99\<rparr>] = Inr ([10], [1 / 2])
   \<and> analyze_slippage never_converges [\<lparr>ask_price_1 = 100, ask_volume_1 = 15, bid_price_1 = 99\<rparr>]
       = Inr NotEnoughData"
  by (simp add: analyze_slippage_def fit_data_def X_grid_eval compute_slippage_def fill_level_def)

text \<open>
  With three samples or more the solver is called, and what it raises reaches the
  caller: the source has no handler. A frame of three rows of volume 15 fills the
  sizes 10 to 40, and the failing solver's error is the result.
\<close>

lemma analyze_slippage_solver_failure:
  "fit_data df = Inr (X_fit, Y_fit) \<Longrightarrow> 3 \<le> length Y_fit \<Longrightarrow> curve_fit X_fit Y_fit = Inl e
     \<Longrightarrow> analyze_slippage curve_fit df = Inl e"
  by (simp add: analyze_slippage_def)

lemma analyze_slippage_four_samples:
  "analyze_slippage never_converges
     [\<lparr>ask_price_1 = 100, ask_volume_1 = 15, bid_price_1 = 99\<rparr>,
      \<lparr>ask_price_1 = 101, ask_volume_1 = 15, bid_price_1 = 99\<rparr>,
      \<lparr>ask_price_1 = 102, ask_volume_1 = 15, bid_price_1 = 99\<rparr>] = Inl RuntimeError"
  by (simp add: analyze_slippage_def fit_data_def X_grid_eval compute_slippage_def fill_level_def
      never_converges_def)

end

